theory Spec2Isabelle
  imports Complex_Main
begin

section \<open>The geo-grid place crawler: plateau detector, dedup, store, provider adapter\<close>

text \<open>
  The development follows three scripts of the repository:
  \<^item> \<^verbatim>\<open>src/export_google_places_plateau.py\<close> (names used as in the source),
  \<^item> \<^verbatim>\<open>src/export_google_places_1000_per_city.py\<close> (names suffixed \<open>_per_city\<close>),
  \<^item> \<^verbatim>\<open>src/export_google_places_to_sqlite.py\<close> (\<open>upsert_restaurants\<close>).

  Everything the scripts take from outside (HTTP outcomes, random jitter, the clock, the
  storage engine refusing a row) is an explicit input of the model.
\<close>

subsection \<open>Configuration constants of the plateau script\<close>

definition WINDOW :: nat where
  "WINDOW = 50"

definition MIN_NEW_AVG :: real where
  "MIN_NEW_AVG = 1 / 2"

definition STABLE_WINDOWS :: nat where
  "STABLE_WINDOWS = 5"

definition MIN_POINTS_BEFORE_PLATEAU :: nat where
  "MIN_POINTS_BEFORE_PLATEAU = 80"

definition REQUEST_SLEEP :: real where
  "REQUEST_SLEEP = 8 / 10"

subsection \<open>Plateau detector (the tail of the loop body of \<open>main\<close>)\<close>

text \<open>
  \<^verbatim>\<open>recent = deque(maxlen=WINDOW)\<close>: appending to a full deque drops the oldest entry.
\<close>

definition deque_append :: "nat \<Rightarrow> 'a list \<Rightarrow> 'a \<Rightarrow> 'a list" where
  "deque_append maxlen dq x =
     (if maxlen = 0 then []
      else if length dq \<ge> maxlen then drop (Suc (length dq) - maxlen) (dq @ [x])
      else dq @ [x])"

record detector =
  recent :: "nat list"
  stable_hits :: nat
  points_done :: nat

definition detector_init :: detector where
  "detector_init = \<lparr>recent = [], stable_hits = 0, points_done = 0\<rparr>"

text \<open>
  Lines 277 to 304 of the plateau script, for one grid point that produced
  \<open>new_count = len(new_places)\<close> records. The boolean is the \<^verbatim>\<open>break\<close>.
  \<^verbatim>\<open>avg_new\<close> is the float quotient of two integers; it is compared with the
  exactly representable 0.5 only when the divisor is \<open>WINDOW\<close>, where the correctly rounded
  quotient is below 0.5 exactly when the exact one is, so the quotient is taken in the reals.
\<close>

definition plateau_observe :: "detector \<Rightarrow> nat \<Rightarrow> detector \<times> bool" where
  "plateau_observe d new_count =
     (let pd = points_done d + 1;
          cleared = (pd = MIN_POINTS_BEFORE_PLATEAU);
          rc0 = (if cleared then [] else recent d);
          sh0 = (if cleared then 0 else stable_hits d);
          rc = deque_append WINDOW rc0 new_count;
          avg_new = real (sum_list rc) / real (length rc)
      in if length rc = WINDOW then
           if pd < MIN_POINTS_BEFORE_PLATEAU then
             (\<lparr>recent = rc, stable_hits = 0, points_done = pd\<rparr>, False)
           else
             let sh = (if avg_new < MIN_NEW_AVG then sh0 + 1 else 0)
             in (\<lparr>recent = rc, stable_hits = sh, points_done = pd\<rparr>, sh \<ge> STABLE_WINDOWS)
         else (\<lparr>recent = rc, stable_hits = sh0, points_done = pd\<rparr>, False))"

text \<open>The detector fed with the yields of successive grid points, until it says stop.\<close>

fun plateau_run :: "detector \<Rightarrow> nat list \<Rightarrow> detector \<times> bool" where
  "plateau_run d [] = (d, False)"
| "plateau_run d (x # xs) =
     (case plateau_observe d x of
        (d', stop) \<Rightarrow> if stop then (d', True) else plateau_run d' xs)"

text \<open>The sequence 0, 1, 0, 1, ... (for even \<open>b\<close>) or 1, 0, 1, 0, ... (for odd \<open>b\<close>).\<close>

definition alternating :: "nat \<Rightarrow> nat \<Rightarrow> nat list" where
  "alternating b n = map (\<lambda>i. (i + b) mod 2) [0..<n]"

text \<open>Two facts that hold of the detector in every reachable state (used in the proofs).\<close>

definition detector_inv :: "detector \<Rightarrow> bool" where
  "detector_inv d \<longleftrightarrow>
     length (recent d) \<le> 50 \<and>
     (stable_hits d = 0 \<or> stable_hits d + 128 \<le> points_done d) \<and>
     (80 \<le> points_done d \<longrightarrow> length (recent d) = min (points_done d - 79) 50)"

definition window_inv :: "(nat \<Rightarrow> nat) \<Rightarrow> detector \<Rightarrow> bool" where
  "window_inv f d \<longleftrightarrow>
     (\<exists>lo. lo \<le> points_done d \<and> points_done d - lo \<le> 50 \<and>
           recent d = map f [lo..<points_done d])"

subsection \<open>Provider results and table rows\<close>

text \<open>
  A result of the provider is a JSON object; the record keeps the keys the scripts read.
  \<open>location\<close> is \<^verbatim>\<open>geometry.location\<close> (absent when either level is absent); its
  components are \<^verbatim>\<open>lat\<close> and \<^verbatim>\<open>lng\<close>. Numbers are only copied, never computed with.
\<close>

record place =
  place_id :: "string option"
  name :: "string option"
  vicinity :: "string option"
  formatted_address :: "string option"
  location :: "(real option \<times> real option) option"
  rating :: "real option"
  user_ratings_total :: "int option"
  price_level :: "int option"
  business_status :: "string option"
  types :: "string list option"

text \<open>Python truthiness of an optional string: \<^verbatim>\<open>None\<close> and \<^verbatim>\<open>""\<close> are false.\<close>

fun truthy :: "string option \<Rightarrow> bool" where
  "truthy None = False"
| "truthy (Some s) = (s \<noteq> [])"

text \<open>Python's \<^verbatim>\<open>a or b\<close> on optional strings.\<close>

definition py_or :: "string option \<Rightarrow> string option \<Rightarrow> string option" where
  "py_or a b = (if truthy a then a else b)"

text \<open>
  A row of table \<^verbatim>\<open>restaurants\<close>. \<open>col_types\<close> and \<open>col_raw_json\<close> stand for the two
  \<^verbatim>\<open>json.dumps\<close> texts, which are determined by the value dumped. \<open>col_fetched_at\<close> is
  the timestamp in seconds.
\<close>

record row =
  col_city :: string
  col_place_id :: "string option"
  col_name :: "string option"
  col_address :: "string option"
  col_lat :: "real option"
  col_lng :: "real option"
  col_rating :: "real option"
  col_user_ratings_total :: "int option"
  col_price_level :: "int option"
  col_business_status :: "string option"
  col_types :: "string list"
  col_raw_json :: place
  col_fetched_at :: nat

text \<open>
  The tuple built per place in \<open>insert_places\<close> and \<open>upsert_places\<close>, with the timestamp
  the statement adds. \<open>address_of\<close> is the one expression in which the scripts differ.
\<close>

definition make_row :: "(place \<Rightarrow> string option) \<Rightarrow> string \<Rightarrow> nat \<Rightarrow> place \<Rightarrow> row" where
  "make_row address_of city now p =
     (let loc = (case location p of None \<Rightarrow> (None, None) | Some l \<Rightarrow> l)
      in \<lparr>col_city = city,
          col_place_id = place_id p,
          col_name = name p,
          col_address = address_of p,
          col_lat = fst loc,
          col_lng = snd loc,
          col_rating = rating p,
          col_user_ratings_total = user_ratings_total p,
          col_price_level = price_level p,
          col_business_status = business_status p,
          col_types = (case types p of None \<Rightarrow> [] | Some ts \<Rightarrow> ts),
          col_raw_json = p,
          col_fetched_at = now\<rparr>)"

definition vicinity_first :: "place \<Rightarrow> string option" where
  "vicinity_first p = py_or (vicinity p) (formatted_address p)"

definition formatted_first :: "place \<Rightarrow> string option" where
  "formatted_first p = py_or (formatted_address p) (vicinity p)"

subsection \<open>The store: one table, one connection\<close>

datatype error = RuntimeError | RequestException | DatabaseError

text \<open>
  \<^verbatim>\<open>ON CONFLICT(city, place_id)\<close>: the new row meets an existing row with the same key.
  SQLite compares key columns with NULL as distinct, so a row without place_id never
  conflicts.
\<close>

definition conflicts :: "row \<Rightarrow> row \<Rightarrow> bool" where
  "conflicts r x \<longleftrightarrow>
     col_city x = col_city r \<and> col_place_id r \<noteq> None \<and> col_place_id x = col_place_id r"

text \<open>One execution of the \<^verbatim>\<open>INSERT ... ON CONFLICT ... DO UPDATE SET ...\<close> statement.\<close>

fun upsert_row :: "row \<Rightarrow> row list \<Rightarrow> row list" where
  "upsert_row r [] = [r]"
| "upsert_row r (x # xs) =
     (if conflicts r x then
        x\<lparr>col_name := col_name r,
          col_address := col_address r,
          col_lat := col_lat r,
          col_lng := col_lng r,
          col_rating := col_rating r,
          col_user_ratings_total := col_user_ratings_total r,
          col_price_level := col_price_level r,
          col_business_status := col_business_status r,
          col_types := col_types r,
          col_raw_json := col_raw_json r,
          col_fetched_at := col_fetched_at r\<rparr> # xs
      else x # upsert_row r xs)"

text \<open>
  \<^verbatim>\<open>executemany\<close>: the statement is executed row by row inside the open transaction. If the
  engine refuses a row (\<open>refuses\<close>: a constraint, a full disk, a lock) the exception leaves
  the rows written so far in the transaction.
\<close>

fun executemany :: "(row \<Rightarrow> bool) \<Rightarrow> row list \<Rightarrow> row list \<Rightarrow> row list \<times> error option" where
  "executemany refuses [] t = (t, None)"
| "executemany refuses (r # rs) t =
     (if refuses r then (t, Some DatabaseError)
      else executemany refuses rs (upsert_row r t))"

text \<open>
  A connection: the durable table and the table as the connection sees it (with the
  changes of the open transaction).
\<close>

record connection =
  committed :: "row list"
  working :: "row list"

definition commit :: "connection \<Rightarrow> connection" where
  "commit c = c\<lparr>committed := working c\<rparr>"

definition rollback :: "connection \<Rightarrow> connection" where
  "rollback c = c\<lparr>working := committed c\<rparr>"

definition load_existing_ids :: "connection \<Rightarrow> string \<Rightarrow> string option set" where
  "load_existing_ids c city = set (map col_place_id (filter (\<lambda>r. col_city r = city) (working c)))"


text \<open>
  \<open>insert_places\<close> of the plateau script: \<^verbatim>\<open>with conn:\<close> commits when \<open>executemany\<close>
  returns and rolls back when it raises. The result is \<open>written\<close>; every executed
  statement changes one row.
\<close>

definition insert_places ::
  "(row \<Rightarrow> bool) \<Rightarrow> nat \<Rightarrow> connection \<Rightarrow> string \<Rightarrow> place list \<Rightarrow> connection \<times> (error + nat)" where
  "insert_places refuses now c city places =
     (if places = [] then (c, Inr 0)
      else
        let rows = map (make_row vicinity_first city now) places
        in case executemany refuses rows (working c) of
             (t, Some e) \<Rightarrow> (rollback (c\<lparr>working := t\<rparr>), Inl e)
           | (t, None) \<Rightarrow> (commit (c\<lparr>working := t\<rparr>), Inr (length rows)))"

text \<open>
  The tables of the other two scripts declare \<^verbatim>\<open>place_id TEXT NOT NULL\<close>: a row without
  place_id is refused by the schema itself.
\<close>

definition not_null_violation :: "row \<Rightarrow> bool" where
  "not_null_violation r \<longleftrightarrow> col_place_id r = None"

text \<open>
  \<open>upsert_places\<close> (1000-per-city script) and \<open>upsert_restaurants\<close> (text-search script):
  \<^verbatim>\<open>cur.executemany(...)\<close> then \<^verbatim>\<open>conn.commit()\<close>; an exception skips the commit.
\<close>

definition upsert_with ::
  "(place \<Rightarrow> string option) \<Rightarrow> (row \<Rightarrow> bool) \<Rightarrow> nat \<Rightarrow> connection \<Rightarrow> string \<Rightarrow> place list
     \<Rightarrow> connection \<times> error option" where
  "upsert_with address_of refuses now c city places =
     (let rows = map (make_row address_of city now) places
      in case executemany (\<lambda>r. not_null_violation r \<or> refuses r) rows (working c) of
           (t, Some e) \<Rightarrow> (c\<lparr>working := t\<rparr>, Some e)
         | (t, None) \<Rightarrow> (commit (c\<lparr>working := t\<rparr>), None))"

definition upsert_places_per_city ::
  "(row \<Rightarrow> bool) \<Rightarrow> nat \<Rightarrow> connection \<Rightarrow> string \<Rightarrow> place list \<Rightarrow> connection \<times> error option" where
  "upsert_places_per_city = upsert_with vicinity_first"

definition upsert_restaurants ::
  "(row \<Rightarrow> bool) \<Rightarrow> nat \<Rightarrow> connection \<Rightarrow> string \<Rightarrow> place list \<Rightarrow> connection \<times> error option" where
  "upsert_restaurants = upsert_with formatted_first"

text \<open>The row stored under a key, if any.\<close>

definition find_row :: "string \<Rightarrow> string option \<Rightarrow> row list \<Rightarrow> row option" where
  "find_row city pid t = List.find (\<lambda>r. col_city r = city \<and> col_place_id r = pid) t"

text \<open>A row without its timestamp: the key and the descriptive columns.\<close>

definition descriptive :: "row \<Rightarrow> row" where
  "descriptive r = r\<lparr>col_fetched_at := 0\<rparr>"

text \<open>A provider result that carries nothing but a place_id (used in examples).\<close>

definition place_of_id :: "string option \<Rightarrow> place" where
  "place_of_id pid =
     \<lparr>place_id = pid, name = None, vicinity = None, formatted_address = None, location = None,
      rating = None, user_ratings_total = None, price_level = None, business_status = None,
      types = None\<rparr>"

definition empty_connection :: connection where
  "empty_connection = \<lparr>committed = [], working = []\<rparr>"

subsection \<open>Deduplication against the seen-set\<close>

text \<open>
  The loop that builds \<^verbatim>\<open>new_places\<close> in \<open>main\<close> of the plateau script: a result is new
  when its place_id is truthy and not yet in \<^verbatim>\<open>seen\<close>; it is then added to \<^verbatim>\<open>seen\<close>.
\<close>

fun new_places_loop ::
  "string option set \<Rightarrow> place list \<Rightarrow> place list \<Rightarrow> string option set \<times> place list" where
  "new_places_loop seen_ids new_places [] = (seen_ids, new_places)"
| "new_places_loop seen_ids new_places (p # rest) =
     (let pid = place_id p
      in if truthy pid \<and> pid \<notin> seen_ids
         then new_places_loop (insert pid seen_ids) (new_places @ [p]) rest
         else new_places_loop seen_ids new_places rest)"

definition TARGET_PER_CITY :: nat where
  "TARGET_PER_CITY = 1000"

text \<open>
  The same loop in the 1000-per-city script, which also leaves the loop as soon as the
  seen-set has reached the target.
\<close>

fun new_places_loop_per_city ::
  "string option set \<Rightarrow> place list \<Rightarrow> place list \<Rightarrow> string option set \<times> place list" where
  "new_places_loop_per_city seen_ids new_places [] = (seen_ids, new_places)"
| "new_places_loop_per_city seen_ids new_places (p # rest) =
     (let pid = place_id p
      in if \<not> truthy pid then new_places_loop_per_city seen_ids new_places rest
         else if pid \<in> seen_ids then new_places_loop_per_city seen_ids new_places rest
         else
           let seen_ids' = insert pid seen_ids; new_places' = new_places @ [p]
           in if card seen_ids' \<ge> TARGET_PER_CITY then (seen_ids', new_places')
              else new_places_loop_per_city seen_ids' new_places' rest)"

text \<open>The truthy place_ids of a batch.\<close>

definition batch_ids :: "place list \<Rightarrow> string option set" where
  "batch_ids batch = {pid \<in> set (map place_id batch). truthy pid}"

subsection \<open>The outside world: HTTP, jitter, clock, storage engine\<close>

text \<open>The JSON body of a response: the keys the scripts read.\<close>

record response =
  status :: "string option"
  results :: "place list"
  next_page_token :: "string option"

text \<open>
  What one \<^verbatim>\<open>requests.get\<close> does: it raises \<^verbatim>\<open>ReadTimeout\<close>, raises another
  \<^verbatim>\<open>RequestException\<close> (connection failure), or returns a response.
\<close>

datatype http_outcome = ReadTimeout | ConnectionFailure | Response response

text \<open>
  The environment of a run: the outcome of the k-th HTTP request, the k-th value drawn by
  \<^verbatim>\<open>random.uniform(0, 1)\<close>, the timestamp read after k requests, and the rows the storage
  engine refuses. Requests are numbered in the order the program makes them, so the
  outcome may depend on everything the program sent before.
\<close>

record env =
  http :: "nat \<Rightarrow> http_outcome"
  uniform :: "nat \<Rightarrow> real"
  clock :: "nat \<Rightarrow> nat"
  refuses_row :: "row \<Rightarrow> bool"

text \<open>The state of the world a run changes: requests made, values drawn, and every sleep.\<close>

record world =
  calls :: nat
  draws :: nat
  slept :: "real list"

definition world_init :: world where
  "world_init = \<lparr>calls = 0, draws = 0, slept = []\<rparr>"

definition sleep :: "real \<Rightarrow> world \<Rightarrow> world" where
  "sleep s w = w\<lparr>slept := slept w @ [s]\<rparr>"

subsection \<open>Provider adapter of the plateau script\<close>

definition max_tries :: nat where
  "max_tries = 6"

text \<open>
  \<open>safe_get\<close>: \<^verbatim>\<open>for i in range(max_tries)\<close>, here from attempt \<open>i\<close> with \<open>k\<close> attempts left.
  Both \<^verbatim>\<open>except\<close> branches sleep \<^verbatim>\<open>min(2 ** i, 30) + random.uniform(0, 1)\<close>; after the last
  attempt the function raises \<^verbatim>\<open>RuntimeError\<close>.
\<close>

fun safe_get_from :: "env \<Rightarrow> nat \<Rightarrow> nat \<Rightarrow> world \<Rightarrow> world \<times> (error + response)" where
  "safe_get_from e i 0 w = (w, Inl RuntimeError)"
| "safe_get_from e i (Suc k) w =
     (case http e (calls w) of
        Response r \<Rightarrow> (w\<lparr>calls := calls w + 1\<rparr>, Inr r)
      | _ \<Rightarrow>
          let sleep_s = real (min (2 ^ i) 30) + uniform e (draws w)
          in safe_get_from e (i + 1) k
               (sleep sleep_s (w\<lparr>calls := calls w + 1, draws := draws w + 1\<rparr>)))"

definition safe_get :: "env \<Rightarrow> world \<Rightarrow> world \<times> (error + response)" where
  "safe_get e w = safe_get_from e 0 max_tries w"

text \<open>
  How one iteration of the paging loop of \<open>fetch_nearby\<close> ends: \<^verbatim>\<open>continue\<close> with a token and
  the results so far, \<^verbatim>\<open>break\<close> with the results so far, or \<^verbatim>\<open>return []\<close>.
\<close>

datatype page_step = Continue "string option" "place list" | Break "place list" | GiveUp

text \<open>The statements under \<^verbatim>\<open>if status == "OK"\<close>.\<close>

definition ok_page :: "place list \<Rightarrow> response \<Rightarrow> page_step" where
  "ok_page all_results data =
     (let acc = all_results @ results data; next_token = next_page_token data
      in if \<not> truthy next_token then Break acc else Continue next_token acc)"

definition fetch_page ::
  "env \<Rightarrow> string option \<Rightarrow> place list \<Rightarrow> world \<Rightarrow> world \<times> (error + page_step)" where
  "fetch_page e next_token all_results w =
     (let w1 = (if truthy next_token then sleep 2 w else w)
      in case safe_get e w1 of
           (w2, Inl err) \<Rightarrow> (w2, Inl err)
         | (w2, Inr data0) \<Rightarrow>
             (case (if status data0 = Some ''INVALID_REQUEST'' \<and> truthy next_token
                    then safe_get e (sleep 2 w2) else (w2, Inr data0)) of
                (w3, Inl err) \<Rightarrow> (w3, Inl err)
              | (w3, Inr data) \<Rightarrow>
                  if status data = Some ''OK'' then (w3, Inr (ok_page all_results data))
                  else if status data = Some ''ZERO_RESULTS'' then (w3, Inr (Break all_results))
                  else if status data = Some ''UNKNOWN_ERROR'' then
                    (case safe_get e (sleep 2 w3) of
                       (w4, Inl err) \<Rightarrow> (w4, Inl err)
                     | (w4, Inr data1) \<Rightarrow>
                         if status data1 = Some ''OK''
                         then (w4, Inr (ok_page all_results data1))
                         else if status data1 = Some ''ZERO_RESULTS''
                         then (w4, Inr (Break all_results))
                         else (w4, Inr GiveUp))
                  else (w3, Inr GiveUp)))"

text \<open>\<^verbatim>\<open>for _ in range(3)\<close>, with \<open>k\<close> iterations left; then \<^verbatim>\<open>return all_results\<close>.\<close>

fun fetch_loop ::
  "env \<Rightarrow> nat \<Rightarrow> string option \<Rightarrow> place list \<Rightarrow> world \<Rightarrow> world \<times> (error + place list)" where
  "fetch_loop e 0 next_token all_results w = (w, Inr all_results)"
| "fetch_loop e (Suc k) next_token all_results w =
     (case fetch_page e next_token all_results w of
        (w', Inl err) \<Rightarrow> (w', Inl err)
      | (w', Inr (Continue tok acc)) \<Rightarrow> fetch_loop e k tok acc w'
      | (w', Inr (Break acc)) \<Rightarrow> (w', Inr acc)
      | (w', Inr GiveUp) \<Rightarrow> (w', Inr []))"

definition fetch_nearby :: "env \<Rightarrow> world \<Rightarrow> world \<times> (error + place list)" where
  "fetch_nearby e w = fetch_loop e 3 None [] w"

subsection \<open>Provider adapter of the 1000-per-city script\<close>

text \<open>A bare \<^verbatim>\<open>requests.get\<close>: a network failure is a \<^verbatim>\<open>RequestException\<close>.\<close>

definition requests_get :: "env \<Rightarrow> world \<Rightarrow> world \<times> (error + response)" where
  "requests_get e w =
     (case http e (calls w) of
        Response r \<Rightarrow> (w\<lparr>calls := calls w + 1\<rparr>, Inr r)
      | _ \<Rightarrow> (w\<lparr>calls := calls w + 1\<rparr>, Inl RequestException))"

definition fetch_page_per_city ::
  "env \<Rightarrow> string option \<Rightarrow> place list \<Rightarrow> world \<Rightarrow> world \<times> (error + page_step)" where
  "fetch_page_per_city e next_token all_results w =
     (let w1 = (if truthy next_token then sleep 2 w else w)
      in case requests_get e w1 of
           (w2, Inl err) \<Rightarrow> (w2, Inl err)
         | (w2, Inr data0) \<Rightarrow>
             (case (if status data0 = Some ''INVALID_REQUEST'' \<and> truthy next_token
                    then requests_get e (sleep 2 w2) else (w2, Inr data0)) of
                (w3, Inl err) \<Rightarrow> (w3, Inl err)
              | (w3, Inr data) \<Rightarrow>
                  if status data \<noteq> Some ''OK'' \<and> status data \<noteq> Some ''ZERO_RESULTS''
                  then (w3, Inl RuntimeError)
                  else (w3, Inr (ok_page all_results data))))"

fun fetch_loop_per_city ::
  "env \<Rightarrow> nat \<Rightarrow> string option \<Rightarrow> place list \<Rightarrow> world \<Rightarrow> world \<times> (error + place list)" where
  "fetch_loop_per_city e 0 next_token all_results w = (w, Inr all_results)"
| "fetch_loop_per_city e (Suc k) next_token all_results w =
     (case fetch_page_per_city e next_token all_results w of
        (w', Inl err) \<Rightarrow> (w', Inl err)
      | (w', Inr (Continue tok acc)) \<Rightarrow> fetch_loop_per_city e k tok acc w'
      | (w', Inr (Break acc)) \<Rightarrow> (w', Inr acc)
      | (w', Inr GiveUp) \<Rightarrow> (w', Inr []))"

definition fetch_nearby_per_city :: "env \<Rightarrow> nat \<Rightarrow> world \<Rightarrow> world \<times> (error + place list)" where
  "fetch_nearby_per_city e max_pages w = fetch_loop_per_city e max_pages None [] w"

subsection \<open>Crawl orchestrator of the plateau script\<close>

text \<open>The variables of the loop over the grid points of one city.\<close>

record crawl =
  st_seen :: "string option set"
  st_conn :: connection
  st_detector :: detector
  st_world :: world

text \<open>How the body of a \<^verbatim>\<open>for\<close> loop ends: next iteration, \<^verbatim>\<open>break\<close>, or an exception.\<close>

datatype loop_exit = Proceed | Broke | Raised error

text \<open>
  The body of the loop over grid points (lines 264 to 306). The coordinates only go into
  the request, so they do not appear. No exception is caught here.
\<close>

definition visit_point :: "env \<Rightarrow> string \<Rightarrow> crawl \<Rightarrow> crawl \<times> loop_exit" where
  "visit_point e city st =
     (case fetch_nearby e (st_world st) of
        (w, Inl err) \<Rightarrow> (st\<lparr>st_world := w\<rparr>, Raised err)
      | (w, Inr found) \<Rightarrow>
          (case new_places_loop (st_seen st) [] found of
             (seen_ids, new_places) \<Rightarrow>
               (case (if new_places \<noteq> []
                      then insert_places (refuses_row e) (clock e (calls w)) (st_conn st) city new_places
                      else (st_conn st, Inr 0)) of
                  (c, Inl err) \<Rightarrow>
                    (st\<lparr>st_seen := seen_ids, st_conn := c, st_world := w\<rparr>, Raised err)
                | (c, Inr written) \<Rightarrow>
                    (case plateau_observe (st_detector st) (length new_places) of
                       (d, stop) \<Rightarrow>
                         if stop
                         then (\<lparr>st_seen = seen_ids, st_conn = c, st_detector = d, st_world = w\<rparr>,
                               Broke)
                         else (\<lparr>st_seen = seen_ids, st_conn = c, st_detector = d,
                                 st_world = sleep REQUEST_SLEEP w\<rparr>, Proceed)))))"

fun crawl_points ::
  "env \<Rightarrow> string \<Rightarrow> crawl \<Rightarrow> (real \<times> real) list \<Rightarrow> crawl \<times> error option" where
  "crawl_points e city st [] = (st, None)"
| "crawl_points e city st (pt # pts) =
     (case visit_point e city st of
        (st', Proceed) \<Rightarrow> crawl_points e city st' pts
      | (st', Broke) \<Rightarrow> (st', None)
      | (st', Raised err) \<Rightarrow> (st', Some err))"

text \<open>One iteration of \<^verbatim>\<open>for city, cfg in CITIES.items()\<close>, for the grid of that city.\<close>

definition crawl_city ::
  "env \<Rightarrow> connection \<Rightarrow> world \<Rightarrow> string \<Rightarrow> (real \<times> real) list \<Rightarrow> crawl \<times> error option" where
  "crawl_city e c w city grid =
     crawl_points e city
       \<lparr>st_seen = load_existing_ids c city, st_conn = c, st_detector = detector_init,
        st_world = w\<rparr> grid"

fun main_cities ::
  "env \<Rightarrow> connection \<Rightarrow> world \<Rightarrow> (string \<times> (real \<times> real) list) list
     \<Rightarrow> (connection \<times> world) \<times> error option" where
  "main_cities e c w [] = ((c, w), None)"
| "main_cities e c w ((city, grid) # rest) =
     (case crawl_city e c w city grid of
        (st, Some err) \<Rightarrow> ((st_conn st, st_world st), Some err)
      | (st, None) \<Rightarrow> main_cities e (st_conn st) (st_world st) rest)"

text \<open>
  \<open>main\<close>: the grids of the cities are inputs (they are computed in floating point from
  the bounding boxes); \<open>c\<close> is the database as \<open>init_db\<close> finds it.
\<close>

definition main ::
  "env \<Rightarrow> string option \<Rightarrow> connection \<Rightarrow> (string \<times> (real \<times> real) list) list
     \<Rightarrow> (connection \<times> world) \<times> error option" where
  "main e api_key c cities =
     (if \<not> truthy api_key then ((c, world_init), Some RuntimeError)
      else main_cities e c world_init cities)"

subsection \<open>Crawl orchestrator of the 1000-per-city script\<close>

record crawl_per_city =
  pc_seen :: "string option set"
  pc_conn :: connection
  pc_world :: world

text \<open>
  The body of the loop over grid points (lines 193 to 224): the target check, the fetch
  with its \<^verbatim>\<open>except RuntimeError\<close>, the dedup loop and the upsert.
\<close>

definition visit_point_per_city :: "env \<Rightarrow> string \<Rightarrow> crawl_per_city \<Rightarrow> crawl_per_city \<times> loop_exit" where
  "visit_point_per_city e city st =
     (if card (pc_seen st) \<ge> TARGET_PER_CITY then (st, Broke)
      else
        case fetch_nearby_per_city e 3 (pc_world st) of
          (w, Inl RuntimeError) \<Rightarrow> (st\<lparr>pc_world := sleep 2 w\<rparr>, Proceed)
        | (w, Inl err) \<Rightarrow> (st\<lparr>pc_world := w\<rparr>, Raised err)
        | (w, Inr found) \<Rightarrow>
            (case new_places_loop_per_city (pc_seen st) [] found of
               (seen_ids, new_places) \<Rightarrow>
                 (case (if new_places \<noteq> []
                        then upsert_places_per_city (refuses_row e) (clock e (calls w))
                               (pc_conn st) city new_places
                        else (pc_conn st, None)) of
                    (c, Some err) \<Rightarrow>
                      (\<lparr>pc_seen = seen_ids, pc_conn = c, pc_world = w\<rparr>, Raised err)
                  | (c, None) \<Rightarrow>
                      (\<lparr>pc_seen = seen_ids, pc_conn = c, pc_world = sleep (1 / 5) w\<rparr>,
                       Proceed))))"



subsection \<open>Example inputs\<close>

text \<open>
  An environment in which request number \<open>k\<close> has outcome \<open>outcomes k\<close>, the jitter is
  always 0, the clock reads \<open>k\<close> after \<open>k\<close> requests and the storage engine refuses nothing.
\<close>

definition env_of :: "(nat \<Rightarrow> http_outcome) \<Rightarrow> env" where
  "env_of outcomes = \<lparr>http = outcomes, uniform = (\<lambda>k. 0), clock = (\<lambda>k. k), refuses_row = (\<lambda>r. False)\<rparr>"

definition respond :: "string \<Rightarrow> place list \<Rightarrow> http_outcome" where
  "respond st found = Response \<lparr>status = Some st, results = found, next_page_token = None\<rparr>"





text \<open>A database that already holds 1000 places of one city, with ids x, xx, xxx, ...\<close>

definition thousand_ids :: "string option list" where
  "thousand_ids = map (\<lambda>n. Some (replicate (Suc n) CHR ''x'')) [0..<1000]"

definition full_connection :: "string \<Rightarrow> connection" where
  "full_connection city =
     \<lparr>committed = map (\<lambda>pid. make_row vicinity_first city 0 (place_of_id pid)) thousand_ids,
      working = map (\<lambda>pid. make_row vicinity_first city 0 (place_of_id pid)) thousand_ids\<rparr>"

section \<open>Properties\<close>

subsection \<open>The plateau detector\<close>

lemma deque_append_50:
  "length dq \<le> 50 \<Longrightarrow>
   deque_append 50 dq x = (if length dq = 50 then tl dq @ [x] else dq @ [x])"
  by (cases dq) (auto simp: deque_append_def)

lemma length_deque_append_50:
  "length dq \<le> 50 \<Longrightarrow> length (deque_append 50 dq x) = min (Suc (length dq)) 50"
  by (simp add: deque_append_50)

lemma points_done_observe: "points_done (fst (plateau_observe d x)) = Suc (points_done d)"
  by (simp add: plateau_observe_def Let_def)

lemma detector_inv_init: "detector_inv detector_init"
  by (simp add: detector_inv_def detector_init_def)

lemma recent_observe:
  "recent (fst (plateau_observe d x)) =
     deque_append 50 (if Suc (points_done d) = 80 then [] else recent d) x"
  by (simp add: plateau_observe_def Let_def WINDOW_def MIN_POINTS_BEFORE_PLATEAU_def)

lemma stable_hits_observe_le:
  "stable_hits (fst (plateau_observe d x)) \<le> Suc (stable_hits d)"
  by (simp add: plateau_observe_def Let_def)

lemma stable_hits_observe_short:
  "length (recent (fst (plateau_observe d x))) \<noteq> 50 \<Longrightarrow>
   stable_hits (fst (plateau_observe d x)) = (if Suc (points_done d) = 80 then 0 else stable_hits d)"
  unfolding recent_observe
  by (auto simp: plateau_observe_def Let_def WINDOW_def MIN_POINTS_BEFORE_PLATEAU_def)

lemma stable_hits_observe_warmup:
  "Suc (points_done d) \<le> 80 \<Longrightarrow> stable_hits d = 0 \<Longrightarrow>
   stable_hits (fst (plateau_observe d x)) = 0"
  by (simp add: plateau_observe_def Let_def WINDOW_def MIN_POINTS_BEFORE_PLATEAU_def
      deque_append_def)

lemma stop_observe:
  "snd (plateau_observe d x) \<Longrightarrow> 5 \<le> stable_hits (fst (plateau_observe d x))"
  by (simp add: plateau_observe_def Let_def STABLE_WINDOWS_def split: if_splits)

lemma detector_inv_observe:
  assumes "detector_inv d"
  shows "detector_inv (fst (plateau_observe d x))"
proof -
  let ?d = "fst (plateau_observe d x)"
  let ?rc0 = "if Suc (points_done d) = 80 then [] else recent d"
  from assms have len0: "length ?rc0 \<le> 50" by (simp add: detector_inv_def)
  have len: "length (recent ?d) = min (Suc (length ?rc0)) 50"
    unfolding recent_observe using len0 by (rule length_deque_append_50)
  have pd: "points_done ?d = Suc (points_done d)" by (rule points_done_observe)
  have a: "length (recent ?d) \<le> 50" using len by simp
  have c: "80 \<le> points_done ?d \<longrightarrow> length (recent ?d) = min (points_done ?d - 79) 50"
  proof (cases "Suc (points_done d) = 80")
    case True
    with len pd show ?thesis by simp
  next
    case False
    with assms len pd show ?thesis by (simp add: detector_inv_def min_def) arith
  qed
  have b: "stable_hits ?d = 0 \<or> stable_hits ?d + 128 \<le> points_done ?d"
  proof (cases "Suc (points_done d) \<le> 80")
    case True
    then have "stable_hits d = 0" using assms by (auto simp: detector_inv_def)
    with True show ?thesis by (simp add: stable_hits_observe_warmup)
  next
    case False
    show ?thesis
    proof (cases "length (recent ?d) = 50")
      case True
      with c pd False have "129 \<le> points_done ?d" by auto
      moreover have "stable_hits ?d \<le> Suc (stable_hits d)" by (rule stable_hits_observe_le)
      ultimately show ?thesis using assms pd by (auto simp: detector_inv_def)
    next
      case F2: False
      then have "stable_hits ?d = stable_hits d" using False
        by (simp add: stable_hits_observe_short)
      then show ?thesis using assms pd by (auto simp: detector_inv_def)
    qed
  qed
  from a b c show ?thesis by (simp add: detector_inv_def)
qed

lemma observe_stop_late:
  assumes "detector_inv d" "snd (plateau_observe d x)"
  shows "133 \<le> points_done (fst (plateau_observe d x))"
proof -
  have "detector_inv (fst (plateau_observe d x))" using assms(1) by (rule detector_inv_observe)
  moreover have "5 \<le> stable_hits (fst (plateau_observe d x))" using assms(2) by (rule stop_observe)
  ultimately show ?thesis by (auto simp: detector_inv_def)
qed

lemma run_stop_late:
  "detector_inv d \<Longrightarrow> snd (plateau_run d xs) \<Longrightarrow> 133 \<le> points_done (fst (plateau_run d xs))"
proof (induction xs arbitrary: d)
  case Nil
  then show ?case by simp
next
  case (Cons x xs)
  obtain d' stop where obs: "plateau_observe d x = (d', stop)" by (cases "plateau_observe d x")
  show ?case
  proof (cases stop)
    case True
    with obs observe_stop_late[OF Cons.prems(1), of x] show ?thesis by simp
  next
    case False
    have "detector_inv d'" using detector_inv_observe[OF Cons.prems(1), of x] obs by simp
    with Cons.IH[of d'] Cons.prems(2) obs False show ?thesis by simp
  qed
qed

lemma plateau_run_append:
  "plateau_run d (xs @ ys) =
     (if snd (plateau_run d xs) then plateau_run d xs
      else plateau_run (fst (plateau_run d xs)) ys)"
  by (induction xs arbitrary: d) (auto split: prod.splits)

lemma points_done_run_le:
  "points_done (fst (plateau_run d xs)) \<le> points_done d + length xs"
proof (induction xs arbitrary: d)
  case Nil
  then show ?case by simp
next
  case (Cons x xs)
  obtain d' stop where obs: "plateau_observe d x = (d', stop)" by (cases "plateau_observe d x")
  have pd: "points_done d' = Suc (points_done d)" using points_done_observe[of d x] obs by simp
  show ?case using Cons.IH[of d'] obs pd by (simp split: if_splits)
qed

lemma points_done_run_nostop:
  "\<not> snd (plateau_run d xs) \<Longrightarrow> points_done (fst (plateau_run d xs)) = points_done d + length xs"
proof (induction xs arbitrary: d)
  case Nil
  then show ?case by simp
next
  case (Cons x xs)
  obtain d' stop where obs: "plateau_observe d x = (d', stop)" by (cases "plateau_observe d x")
  have pd: "points_done d' = Suc (points_done d)" using points_done_observe[of d x] obs by simp
  show ?case using Cons.IH[of d'] Cons.prems obs pd by (simp split: if_splits)
qed

lemma observe_at_warmup:
  "Suc (points_done d) = MIN_POINTS_BEFORE_PLATEAU \<Longrightarrow>
   plateau_observe d x = (\<lparr>recent = [x], stable_hits = 0, points_done = 80\<rparr>, False)"
  by (simp add: plateau_observe_def Let_def MIN_POINTS_BEFORE_PLATEAU_def WINDOW_def deque_append_def)

lemma warmup_prefix_forgotten:
  assumes "length pre = 79"
  shows "plateau_run detector_init (pre @ x # post) =
         plateau_run \<lparr>recent = [x], stable_hits = 0, points_done = 80\<rparr> post"
proof -
  let ?r = "plateau_run detector_init pre"
  have le: "points_done (fst ?r) \<le> 79"
    using points_done_run_le[of detector_init pre] assms by (simp add: detector_init_def)
  have nostop: "\<not> snd ?r"
    using run_stop_late[OF detector_inv_init, of pre] le by auto
  then have "points_done (fst ?r) = 79"
    using points_done_run_nostop[of detector_init pre] assms by (simp add: detector_init_def)
  then have "plateau_observe (fst ?r) x = (\<lparr>recent = [x], stable_hits = 0, points_done = 80\<rparr>, False)"
    by (simp add: observe_at_warmup MIN_POINTS_BEFORE_PLATEAU_def)
  then show ?thesis using nostop by (simp add: plateau_run_append)
qed

lemma stop_needs_133:
  assumes "snd (plateau_run detector_init xs)"
  shows "133 \<le> length xs"
  using run_stop_late[OF detector_inv_init assms] points_done_run_le[of detector_init xs]
  by (simp add: detector_init_def)

lemma window_inv_init: "window_inv f detector_init"
  by (auto simp: window_inv_def detector_init_def)

lemma tl_map_upt: "tl (map f [lo..<k]) = map f [Suc lo..<k]"
  by (cases "lo < k") (simp_all add: upt_rec[of lo k])

lemma window_inv_observe:
  assumes "window_inv f d"
  shows "window_inv f (fst (plateau_observe d (f (points_done d))))"
proof -
  let ?k = "points_done d"
  let ?d = "fst (plateau_observe d (f ?k))"
  have pd: "points_done ?d = Suc ?k" by (rule points_done_observe)
  from assms obtain lo where lo: "lo \<le> ?k" "?k - lo \<le> 50" "recent d = map f [lo..<?k]"
    by (auto simp: window_inv_def)
  show ?thesis
  proof (cases "Suc ?k = 80")
    case True
    then have "recent ?d = map f [?k..<Suc ?k]"
      by (simp add: recent_observe deque_append_def)
    with pd show ?thesis unfolding window_inv_def by (intro exI[of _ ?k]) simp
  next
    case False
    have len: "length (recent d) \<le> 50" using lo by simp
    show ?thesis
    proof (cases "length (recent d) = 50")
      case True
      then have "recent ?d = tl (recent d) @ [f ?k]"
        using False len by (simp add: recent_observe deque_append_50)
      also have "\<dots> = map f [Suc lo..<Suc ?k]"
        using lo True by (simp add: tl_map_upt)
      finally show ?thesis using pd lo True unfolding window_inv_def
        by (intro exI[of _ "Suc lo"]) auto
    next
      case F: False
      then have "recent ?d = recent d @ [f ?k]"
        using False len by (simp add: recent_observe deque_append_50)
      also have "\<dots> = map f [lo..<Suc ?k]" using lo by simp
      finally show ?thesis using pd lo F unfolding window_inv_def
        by (intro exI[of _ lo]) auto
    qed
  qed
qed

lemma alt_sum: "sum_list (map (\<lambda>i. (i + b) mod 2) [lo..<lo + 2 * m]) = m"
proof (induction m)
  case 0
  then show ?case by simp
next
  case (Suc m)
  have "[lo..<lo + 2 * Suc m] = [lo..<lo + 2 * m] @ [lo + 2 * m, Suc (lo + 2 * m)]"
    by simp
  moreover have "(lo + 2 * m + b) mod 2 + (Suc (lo + 2 * m) + b) mod 2 = 1"
    by presburger
  ultimately show ?case using Suc.IH by simp
qed

lemma alt_window_sum:
  assumes "window_inv (\<lambda>i. (i + b) mod 2) d" "length (recent d) = 50"
  shows "sum_list (recent d) = 25"
proof -
  from assms obtain lo where lo: "lo \<le> points_done d" "recent d = map (\<lambda>i. (i + b) mod 2) [lo..<points_done d]"
    by (auto simp: window_inv_def)
  with assms(2) have "points_done d = lo + 2 * 25" by simp
  with lo(2) show ?thesis using alt_sum[of b lo 25] by simp
qed

lemma observe_full_window_not_low:
  assumes "length (recent (fst (plateau_observe d x))) = 50 \<longrightarrow>
           sum_list (recent (fst (plateau_observe d x))) \<ge> 25"
  shows "stable_hits (fst (plateau_observe d x)) = (if length (recent (fst (plateau_observe d x))) = 50 then 0 else if Suc (points_done d) = 80 then 0 else stable_hits d)
         \<and> \<not> snd (plateau_observe d x)"
  using assms unfolding recent_observe
  by (auto simp: plateau_observe_def Let_def WINDOW_def MIN_POINTS_BEFORE_PLATEAU_def MIN_NEW_AVG_def STABLE_WINDOWS_def)

lemma alt_run:
  assumes "window_inv (\<lambda>i. (i + b) mod 2) d" "stable_hits d = 0"
  shows "\<not> snd (plateau_run d (map (\<lambda>i. (i + b) mod 2) [points_done d..<points_done d + n]))"
  using assms
proof (induction n arbitrary: d)
  case 0
  then show ?case by simp
next
  case (Suc n)
  let ?f = "\<lambda>i. (i + b) mod 2"
  let ?k = "points_done d"
  let ?d = "fst (plateau_observe d (?f ?k))"
  have inv: "window_inv ?f ?d" using Suc.prems(1) by (rule window_inv_observe)
  have pd: "points_done ?d = Suc ?k" by (rule points_done_observe)
  have "length (recent ?d) = 50 \<longrightarrow> 25 \<le> sum_list (recent ?d)"
    using alt_window_sum[OF inv] by simp
  from observe_full_window_not_low[OF this] Suc.prems(2)
  have sh: "stable_hits ?d = 0" and ns: "\<not> snd (plateau_observe d (?f ?k))"
    by (simp_all split: if_splits)
  have up: "[?k..<?k + Suc n] = ?k # [Suc ?k..<Suc ?k + n]"
    by (simp add: upt_rec[of ?k])
  from Suc.IH[OF inv sh] pd ns show ?case
    unfolding up by (simp add: case_prod_beta)
qed

lemma alternating_run_no_stop: "\<not> snd (plateau_run detector_init (alternating b n))"
  using alt_run[OF window_inv_init, of b n]
  by (simp add: detector_init_def alternating_def)


lemma all_zero_stops_at_133:
  "plateau_run detector_init (replicate 133 0) =
     (\<lparr>recent = replicate 50 0, stable_hits = 5, points_done = 133\<rparr>, True)"
  by code_simp

text \<open>
  Claim C3. When the count of visited points reaches the warm-up count 80, the window and
  the low-yield counter are reset: the detector's state after point 80 is the one-sample
  window holding that point's yield with counter 0, whatever the 79 earlier yields were, so
  the run after a 79-point prefix does not depend on the prefix. For every input sequence a
  stop is signalled at point 133 or later (80 + 49 points to refill the window of 50, then
  5 consecutive low windows), and 133 zeros do stop at point 133.
\<close>

theorem plateau_warmup_reset_earliest_stop:
  "(Suc (points_done d) = MIN_POINTS_BEFORE_PLATEAU \<longrightarrow>
      plateau_observe d x = (\<lparr>recent = [x], stable_hits = 0, points_done = 80\<rparr>, False))
   \<and> (length pre = 79 \<longrightarrow>
      plateau_run detector_init (pre @ x # post) =
      plateau_run \<lparr>recent = [x], stable_hits = 0, points_done = 80\<rparr> post)
   \<and> (snd (plateau_run detector_init xs) \<longrightarrow>
      133 \<le> length xs \<and> 133 \<le> points_done (fst (plateau_run detector_init xs)))
   \<and> plateau_run detector_init (replicate 133 0) =
      (\<lparr>recent = replicate 50 0, stable_hits = 5, points_done = 133\<rparr>, True)"
  using observe_at_warmup[of d x] warmup_prefix_forgotten[of pre x post]
    stop_needs_133[of xs] run_stop_late[OF detector_inv_init, of xs] all_zero_stops_at_133
  by blast

theorem plateau_warmup_reset_earliest_stop_witness:
  "plateau_observe \<lparr>recent = [1, 2], stable_hits = 0, points_done = 79\<rparr> 7 =
     (\<lparr>recent = [7], stable_hits = 0, points_done = 80\<rparr>, False)
   \<and> plateau_run detector_init (replicate 79 4 @ 7 # [0, 0]) =
     plateau_run \<lparr>recent = [7], stable_hits = 0, points_done = 80\<rparr> [0, 0]
   \<and> snd (plateau_run detector_init (replicate 133 0))
   \<and> 133 \<le> length (replicate 133 (0::nat))
   \<and> 133 \<le> points_done (fst (plateau_run detector_init (replicate 133 0)))"
  using plateau_warmup_reset_earliest_stop
    [of "\<lparr>recent = [1, 2], stable_hits = 0, points_done = 79\<rparr>" 7 "replicate 79 4" "[0, 0]"
        "replicate 133 0"]
  by (simp add: MIN_POINTS_BEFORE_PLATEAU_def)

text \<open>
  Claim C4. With window 50, threshold 0.5 and stability count 5, the alternating sequence
  of yields 0, 1, 0, 1, ... (or 1, 0, 1, 0, ...) never makes the detector signal stop,
  however many points are processed: every full window sums to 25, so its average is not
  below the threshold and the counter stays at zero.
\<close>

theorem alternating_never_stops:
  "WINDOW = 50 \<and> MIN_NEW_AVG = 1 / 2 \<and> STABLE_WINDOWS = 5
   \<and> snd (plateau_run detector_init (alternating b n)) = False"
  using alternating_run_no_stop[of b n]
  by (simp add: WINDOW_def MIN_NEW_AVG_def STABLE_WINDOWS_def)

theorem alternating_never_stops_witness:
  "snd (plateau_run detector_init (alternating 0 140)) = False
   \<and> snd (plateau_run detector_init (alternating 1 140)) = False"
  using alternating_never_stops[of 0 140] alternating_never_stops[of 1 140]
  by simp

subsection \<open>The store\<close>

lemma make_row_later:
  "make_row a city t2 p = (make_row a city t1 p)\<lparr>col_fetched_at := t2\<rparr>"
  by (simp add: make_row_def Let_def)

lemma make_row_key [simp]:
  "col_city (make_row a city now p) = city"
  "col_place_id (make_row a city now p) = place_id p"
  "col_fetched_at (make_row a city now p) = now"
  by (simp_all add: make_row_def Let_def)

lemma length_upsert_row_later:
  "length (upsert_row (r\<lparr>col_fetched_at := t2\<rparr>) t) = length (upsert_row r t)"
  by (induction t) (auto simp: conflicts_def)

lemma descriptive_upsert_row_later:
  "map descriptive (upsert_row (r\<lparr>col_fetched_at := t2\<rparr>) t) = map descriptive (upsert_row r t)"
  by (induction t) (auto simp: conflicts_def descriptive_def)

lemma upsert_row_twice:
  assumes "col_place_id r \<noteq> None"
  shows "upsert_row (r\<lparr>col_fetched_at := t2\<rparr>) (upsert_row r t) =
         upsert_row (r\<lparr>col_fetched_at := t2\<rparr>) t"
  using assms by (induction t) (auto simp: conflicts_def)

lemma find_row_upsert_row:
  assumes "col_place_id r \<noteq> None"
  shows "find_row (col_city r) (col_place_id r) (upsert_row r t) = Some r"
  using assms by (induction t) (auto simp: find_row_def conflicts_def)

lemma key_present_upsert_row:
  "\<exists>x \<in> set (upsert_row r t). col_city x = col_city r \<and> col_place_id x = col_place_id r"
  by (induction t) (auto simp: conflicts_def)

lemma key_kept_upsert_row:
  assumes "\<exists>x \<in> set t. col_city x = c \<and> col_place_id x = k"
  shows "\<exists>x \<in> set (upsert_row r t). col_city x = c \<and> col_place_id x = k"
  using assms by (induction t) (auto simp: conflicts_def)

lemma executemany_ok_iff:
  "snd (executemany refuses rows t) = None \<longleftrightarrow> (\<forall>r \<in> set rows. \<not> refuses r)"
  by (induction rows arbitrary: t) auto

lemma executemany_error:
  "snd (executemany refuses rows t) = Some e \<Longrightarrow> e = DatabaseError"
  by (induction rows arbitrary: t) (auto split: if_splits)

lemma executemany_ok_table:
  "\<forall>r \<in> set rows. \<not> refuses r \<Longrightarrow>
   executemany refuses rows t = (foldl (\<lambda>t r. upsert_row r t) t rows, None)"
  by (induction rows arbitrary: t) auto

lemma key_kept_foldl:
  assumes "\<exists>x \<in> set t. col_city x = c \<and> col_place_id x = k"
  shows "\<exists>x \<in> set (foldl (\<lambda>t r. upsert_row r t) t rows). col_city x = c \<and> col_place_id x = k"
  using assms
proof (induction rows arbitrary: t)
  case Nil
  then show ?case by simp
next
  case (Cons r rows)
  from key_kept_upsert_row[OF Cons.prems, of r] Cons.IH[of "upsert_row r t"]
  show ?case by simp
qed

lemma key_present_foldl:
  assumes "r \<in> set rows"
  shows "\<exists>x \<in> set (foldl (\<lambda>t r. upsert_row r t) t rows).
           col_city x = col_city r \<and> col_place_id x = col_place_id r"
  using assms
proof (induction rows arbitrary: t)
  case Nil
  then show ?case by simp
next
  case (Cons a rows)
  show ?case
  proof (cases "r = a")
    case True
    from key_kept_foldl[OF key_present_upsert_row[of a t], of rows] True
    show ?thesis by simp
  next
    case False
    with Cons.prems have "r \<in> set rows" by simp
    from Cons.IH[OF this, of "upsert_row a t"] show ?thesis by simp
  qed
qed

lemma insert_places_raises_iff:
  "(\<exists>e. snd (insert_places refuses now c city places) = Inl e) \<longleftrightarrow>
   (\<exists>p \<in> set places. refuses (make_row vicinity_first city now p))"
proof (cases "places = []")
  case True
  then show ?thesis by (simp add: insert_places_def)
next
  case False
  obtain t r where ex: "executemany refuses (map (make_row vicinity_first city now) places) (working c) = (t, r)"
    by (cases "executemany refuses (map (make_row vicinity_first city now) places) (working c)")
  have "r = None \<longleftrightarrow> (\<forall>p \<in> set places. \<not> refuses (make_row vicinity_first city now p))"
    using executemany_ok_iff[of refuses "map (make_row vicinity_first city now) places" "working c"] ex
    by simp
  then show ?thesis using False ex
    by (cases r) (auto simp: insert_places_def Let_def)
qed

lemma insert_places_raised:
  assumes "insert_places refuses now c city places = (c', Inl e)"
  shows "committed c' = committed c \<and> working c' = committed c \<and> e = DatabaseError"
proof -
  from assms have ne: "places \<noteq> []" by (auto simp: insert_places_def)
  obtain t r where ex: "executemany refuses (map (make_row vicinity_first city now) places) (working c) = (t, r)"
    by (cases "executemany refuses (map (make_row vicinity_first city now) places) (working c)")
  from assms ne ex obtain e' where r: "r = Some e'" "e = e'" "c' = rollback (c\<lparr>working := t\<rparr>)"
    by (cases r) (auto simp: insert_places_def Let_def)
  from executemany_error[of refuses "map (make_row vicinity_first city now) places" "working c" e'] ex r have "e = DatabaseError" by simp
  with r show ?thesis by (simp add: rollback_def)
qed

lemma insert_places_returned:
  assumes "insert_places refuses now c city places = (c', Inr n)"
  shows "n = length places \<and> (places = [] \<longrightarrow> c' = c) \<and>
         (places \<noteq> [] \<longrightarrow> working c' = committed c' \<and>
            committed c' = foldl (\<lambda>t r. upsert_row r t) (working c)
                             (map (make_row vicinity_first city now) places))"
proof (cases "places = []")
  case True
  with assms show ?thesis by (simp add: insert_places_def)
next
  case False
  obtain t r where ex: "executemany refuses (map (make_row vicinity_first city now) places) (working c) = (t, r)"
    by (cases "executemany refuses (map (make_row vicinity_first city now) places) (working c)")
  from assms False ex have r: "r = None" "c' = commit (c\<lparr>working := t\<rparr>)" "n = length places"
    by (cases r; auto simp: insert_places_def Let_def)+
  have "\<forall>x \<in> set (map (make_row vicinity_first city now) places). \<not> refuses x"
    using executemany_ok_iff[of refuses "map (make_row vicinity_first city now) places" "working c"] ex r
    by simp
  from executemany_ok_table[OF this, of "working c"] ex
  have "t = foldl (\<lambda>t r. upsert_row r t) (working c) (map (make_row vicinity_first city now) places)"
    by simp
  with r False show ?thesis by (simp add: commit_def)
qed

lemma upsert_with_raises_iff:
  "(\<exists>e. snd (upsert_with a refuses now c city places) = Some e) \<longleftrightarrow>
   (\<exists>p \<in> set places. place_id p = None \<or> refuses (make_row a city now p))"
proof -
  let ?R = "\<lambda>r. not_null_violation r \<or> refuses r"
  obtain t r where ex: "executemany ?R (map (make_row a city now) places) (working c) = (t, r)"
    by (cases "executemany ?R (map (make_row a city now) places) (working c)")
  have "r = None \<longleftrightarrow> (\<forall>p \<in> set places. \<not> ?R (make_row a city now p))"
    using executemany_ok_iff[of ?R "map (make_row a city now) places" "working c"] ex
    by simp
  then show ?thesis using ex
    by (cases r) (auto simp: upsert_with_def Let_def not_null_violation_def)
qed

lemma upsert_with_raised:
  assumes "upsert_with a refuses now c city places = (c', Some e)"
  shows "committed c' = committed c \<and> e = DatabaseError"
proof -
  let ?R = "\<lambda>r. not_null_violation r \<or> refuses r"
  obtain t r where ex: "executemany ?R (map (make_row a city now) places) (working c) = (t, r)"
    by (cases "executemany ?R (map (make_row a city now) places) (working c)")
  from assms ex have r: "r = Some e" "c' = c\<lparr>working := t\<rparr>"
    by (cases r; auto simp: upsert_with_def Let_def)+
  from executemany_error[of ?R "map (make_row a city now) places" "working c" e] ex r
  have "e = DatabaseError" by simp
  with r show ?thesis by simp
qed

lemma upsert_with_returned:
  assumes "upsert_with a refuses now c city places = (c', None)"
  shows "working c' = committed c' \<and>
         committed c' = foldl (\<lambda>t r. upsert_row r t) (working c) (map (make_row a city now) places)"
proof -
  let ?R = "\<lambda>r. not_null_violation r \<or> refuses r"
  obtain t r where ex: "executemany ?R (map (make_row a city now) places) (working c) = (t, r)"
    by (cases "executemany ?R (map (make_row a city now) places) (working c)")
  from assms ex have r: "r = None" "c' = commit (c\<lparr>working := t\<rparr>)"
    by (cases r; auto simp: upsert_with_def Let_def)+
  have "\<forall>x \<in> set (map (make_row a city now) places). \<not> ?R x"
    using executemany_ok_iff[of ?R "map (make_row a city now) places" "working c"] ex r
    by simp
  from executemany_ok_table[OF this, of "working c"] ex
  have "t = foldl (\<lambda>t r. upsert_row r t) (working c) (map (make_row a city now) places)"
    by simp
  with r show ?thesis by (simp add: commit_def)
qed

lemma batch_keys_present:
  assumes "p \<in> set places"
  shows "\<exists>x \<in> set (foldl (\<lambda>t r. upsert_row r t) t (map (make_row a city now) places)).
           col_city x = city \<and> col_place_id x = place_id p"
  using key_present_foldl[of "make_row a city now p" "map (make_row a city now) places" t] assms
  by simp

text \<open>
  Claim C8. A batch upsert is all-or-nothing. In the plateau script (\<open>insert_places\<close>,
  \<^verbatim>\<open>with conn:\<close>), if the engine refuses any row of the batch the call raises, the
  transaction is rolled back and the durable table is the one before the call; the call
  raises exactly when some row of the batch is refused; when it returns, the durable table
  is the old one with every row of the batch upserted, and every record of the batch is
  present under its key. In the text-search script (\<open>upsert_restaurants\<close>, \<^verbatim>\<open>executemany\<close>
  then \<^verbatim>\<open>commit\<close>) a failure skips the commit, so the durable table is unchanged, and a
  return has committed the whole batch.
\<close>

theorem batch_upsert_all_or_nothing:
  "(insert_places refuses now c city places = (c', Inl e) \<longrightarrow>
      committed c' = committed c \<and> working c' = committed c)
   \<and> ((\<exists>e. snd (insert_places refuses now c city places) = Inl e) \<longleftrightarrow>
      (\<exists>p \<in> set places. refuses (make_row vicinity_first city now p)))
   \<and> (insert_places refuses now c city places = (c', Inr n) \<and> places \<noteq> [] \<longrightarrow>
      working c' = committed c' \<and>
      committed c' = foldl (\<lambda>t r. upsert_row r t) (working c)
                       (map (make_row vicinity_first city now) places) \<and>
      (\<forall>p \<in> set places. \<exists>x \<in> set (committed c'). col_city x = city \<and> col_place_id x = place_id p))
   \<and> (upsert_restaurants refuses now c city places = (c', Some e) \<longrightarrow>
      committed c' = committed c)
   \<and> ((\<exists>e. snd (upsert_restaurants refuses now c city places) = Some e) \<longleftrightarrow>
      (\<exists>p \<in> set places. place_id p = None \<or> refuses (make_row formatted_first city now p)))
   \<and> (upsert_restaurants refuses now c city places = (c', None) \<longrightarrow>
      working c' = committed c' \<and>
      committed c' = foldl (\<lambda>t r. upsert_row r t) (working c)
                       (map (make_row formatted_first city now) places) \<and>
      (\<forall>p \<in> set places. \<exists>x \<in> set (committed c'). col_city x = city \<and> col_place_id x = place_id p))"
proof -
  have 1: "insert_places refuses now c city places = (c', Inl e) \<longrightarrow>
      committed c' = committed c \<and> working c' = committed c"
    using insert_places_raised[of refuses now c city places c' e] by blast
  have 2: "(\<exists>e. snd (insert_places refuses now c city places) = Inl e) \<longleftrightarrow>
      (\<exists>p \<in> set places. refuses (make_row vicinity_first city now p))"
    by (rule insert_places_raises_iff)
  have 3: "insert_places refuses now c city places = (c', Inr n) \<and> places \<noteq> [] \<longrightarrow>
      working c' = committed c' \<and>
      committed c' = foldl (\<lambda>t r. upsert_row r t) (working c)
                       (map (make_row vicinity_first city now) places) \<and>
      (\<forall>p \<in> set places. \<exists>x \<in> set (committed c'). col_city x = city \<and> col_place_id x = place_id p)"
    using insert_places_returned[of refuses now c city places c' n]
      batch_keys_present[of _ places "working c" vicinity_first city now]
    by auto
  have 4: "upsert_restaurants refuses now c city places = (c', Some e) \<longrightarrow>
      committed c' = committed c"
    using upsert_with_raised[of formatted_first refuses now c city places c' e]
    by (simp add: upsert_restaurants_def)
  have 5: "(\<exists>e. snd (upsert_restaurants refuses now c city places) = Some e) \<longleftrightarrow>
      (\<exists>p \<in> set places. place_id p = None \<or> refuses (make_row formatted_first city now p))"
    unfolding upsert_restaurants_def by (rule upsert_with_raises_iff)
  have 6: "upsert_restaurants refuses now c city places = (c', None) \<longrightarrow>
      working c' = committed c' \<and>
      committed c' = foldl (\<lambda>t r. upsert_row r t) (working c)
                       (map (make_row formatted_first city now) places) \<and>
      (\<forall>p \<in> set places. \<exists>x \<in> set (committed c'). col_city x = city \<and> col_place_id x = place_id p)"
    using upsert_with_returned[of formatted_first refuses now c city places c']
      batch_keys_present[of _ places "working c" formatted_first city now]
    by (auto simp: upsert_restaurants_def)
  from 1 2 3 4 5 6 show ?thesis by blast
qed

lemmas store_eval = insert_places_def upsert_restaurants_def upsert_with_def Let_def
  make_row_def vicinity_first_def formatted_first_def py_or_def place_of_id_def
  empty_connection_def commit_def rollback_def conflicts_def not_null_violation_def

theorem batch_upsert_all_or_nothing_witness:
  "insert_places (\<lambda>r. col_place_id r = Some ''bad'') 5 empty_connection ''SF''
       [place_of_id (Some ''a''), place_of_id (Some ''bad'')]
     = (empty_connection, Inl DatabaseError)
   \<and> fst (upsert_restaurants (\<lambda>r. col_place_id r = Some ''bad'') 5 empty_connection ''SF''
       [place_of_id (Some ''a''), place_of_id (Some ''bad'')])
     = \<lparr>committed = [], working = [make_row formatted_first ''SF'' 5 (place_of_id (Some ''a''))]\<rparr>
   \<and> snd (upsert_restaurants (\<lambda>r. col_place_id r = Some ''bad'') 5 empty_connection ''SF''
       [place_of_id (Some ''a''), place_of_id (Some ''bad'')]) = Some DatabaseError
   \<and> insert_places (\<lambda>r. col_place_id r = Some ''bad'') 5 empty_connection ''SF''
       [place_of_id (Some ''a''), place_of_id (Some ''b'')]
     = (\<lparr>committed = [make_row vicinity_first ''SF'' 5 (place_of_id (Some ''a'')),
                       make_row vicinity_first ''SF'' 5 (place_of_id (Some ''b''))],
         working = [make_row vicinity_first ''SF'' 5 (place_of_id (Some ''a'')),
                    make_row vicinity_first ''SF'' 5 (place_of_id (Some ''b''))]\<rparr>, Inr 2)"
  using batch_upsert_all_or_nothing
    [of "\<lambda>r. col_place_id r = Some ''bad''" 5 empty_connection "''SF''"
        "[place_of_id (Some ''a''), place_of_id (Some ''bad'')]" empty_connection DatabaseError 0]
  by (simp add: store_eval)

lemma insert_places_single:
  assumes "\<not> refuses (make_row vicinity_first city now p)"
  shows "committed (fst (insert_places refuses now c city [p])) =
           upsert_row (make_row vicinity_first city now p) (working c)
       \<and> working (fst (insert_places refuses now c city [p])) =
           upsert_row (make_row vicinity_first city now p) (working c)"
  using assms by (simp add: insert_places_def Let_def commit_def)

lemma upsert_with_single:
  assumes "\<not> refuses (make_row a city now p)" "place_id p \<noteq> None"
  shows "committed (fst (upsert_with a refuses now c city [p])) =
           upsert_row (make_row a city now p) (working c)
       \<and> working (fst (upsert_with a refuses now c city [p])) =
           upsert_row (make_row a city now p) (working c)"
  using assms by (auto simp: upsert_with_def Let_def commit_def not_null_violation_def)

lemma upsert_twice_table:
  assumes "place_id p \<noteq> None"
  shows "upsert_row (make_row a city t2 p) (upsert_row (make_row a city t1 p) t) =
           upsert_row (make_row a city t2 p) t
       \<and> length (upsert_row (make_row a city t2 p) (upsert_row (make_row a city t1 p) t)) =
           length (upsert_row (make_row a city t1 p) t)
       \<and> map descriptive (upsert_row (make_row a city t2 p) (upsert_row (make_row a city t1 p) t)) =
           map descriptive (upsert_row (make_row a city t1 p) t)
       \<and> find_row city (place_id p) (upsert_row (make_row a city t1 p) t) =
           Some (make_row a city t1 p)
       \<and> find_row city (place_id p)
           (upsert_row (make_row a city t2 p) (upsert_row (make_row a city t1 p) t)) =
           Some (make_row a city t2 p)"
proof -
  let ?r1 = "make_row a city t1 p"
  let ?r2 = "make_row a city t2 p"
  have r2: "?r2 = ?r1\<lparr>col_fetched_at := t2\<rparr>" by (rule make_row_later)
  have k: "col_place_id ?r1 \<noteq> None" "col_place_id ?r2 \<noteq> None" using assms by simp_all
  have a: "upsert_row ?r2 (upsert_row ?r1 t) = upsert_row ?r2 t"
    unfolding r2 using k(1) by (rule upsert_row_twice)
  have b: "length (upsert_row ?r2 t) = length (upsert_row ?r1 t)"
    unfolding r2 by (rule length_upsert_row_later)
  have c: "map descriptive (upsert_row ?r2 t) = map descriptive (upsert_row ?r1 t)"
    unfolding r2 by (rule descriptive_upsert_row_later)
  have d: "find_row city (place_id p) (upsert_row ?r1 t) = Some ?r1"
    using find_row_upsert_row[OF k(1), of t] by simp
  have e: "find_row city (place_id p) (upsert_row ?r2 t) = Some ?r2"
    using find_row_upsert_row[OF k(2), of t] by simp
  from a b c d e show ?thesis by simp
qed

text \<open>
  Claim C7. Upserting the same record (one that has a place_id) twice with identical fields
  leaves the store as upserting it once does: the same number of rows, the same keys and
  descriptive columns in every row, and in fact the very table that a single upsert at the
  later time produces; only \<open>fetched_at\<close> of the record's row changes, from the time of
  the first upsert to the time of the second, which is not earlier. This holds for
  \<open>insert_places\<close> (plateau script) and for \<open>upsert_restaurants\<close> (text-search script).
\<close>

theorem upsert_twice_same_as_once:
  assumes "place_id p \<noteq> None" and "t1 \<le> t2"
    and "\<not> refuses (make_row vicinity_first city t1 p)"
    and "\<not> refuses (make_row vicinity_first city t2 p)"
    and "\<not> refuses (make_row formatted_first city t1 p)"
    and "\<not> refuses (make_row formatted_first city t2 p)"
    and "c1 = fst (insert_places refuses t1 c city [p])"
    and "c2 = fst (insert_places refuses t2 c1 city [p])"
    and "d1 = fst (upsert_restaurants refuses t1 c city [p])"
    and "d2 = fst (upsert_restaurants refuses t2 d1 city [p])"
  shows "length (committed c2) = length (committed c1)
       \<and> map descriptive (committed c2) = map descriptive (committed c1)
       \<and> committed c2 = committed (fst (insert_places refuses t2 c city [p]))
       \<and> map_option col_fetched_at (find_row city (place_id p) (committed c1)) = Some t1
       \<and> map_option col_fetched_at (find_row city (place_id p) (committed c2)) = Some t2
       \<and> map_option descriptive (find_row city (place_id p) (committed c2)) =
           map_option descriptive (find_row city (place_id p) (committed c1))
       \<and> length (committed d2) = length (committed d1)
       \<and> map descriptive (committed d2) = map descriptive (committed d1)
       \<and> committed d2 = committed (fst (upsert_restaurants refuses t2 c city [p]))
       \<and> map_option col_fetched_at (find_row city (place_id p) (committed d1)) = Some t1
       \<and> map_option col_fetched_at (find_row city (place_id p) (committed d2)) = Some t2
       \<and> map_option descriptive (find_row city (place_id p) (committed d2)) =
           map_option descriptive (find_row city (place_id p) (committed d1))"
proof -
  have desc: "descriptive (make_row a city t2 p) = descriptive (make_row a city t1 p)" for a
    by (simp add: descriptive_def make_row_def Let_def)
  have c1: "committed c1 = upsert_row (make_row vicinity_first city t1 p) (working c)"
       "working c1 = upsert_row (make_row vicinity_first city t1 p) (working c)"
    using insert_places_single[where refuses=refuses and city=city and now=t1 and p=p and c=c] assms(3) assms(7) by simp_all
  have c2: "committed c2 = upsert_row (make_row vicinity_first city t2 p) (working c1)"
    using insert_places_single[where refuses=refuses and city=city and now=t2 and p=p and c=c1] assms(4) assms(8) by simp
  have c3: "committed (fst (insert_places refuses t2 c city [p])) =
              upsert_row (make_row vicinity_first city t2 p) (working c)"
    using insert_places_single[where refuses=refuses and city=city and now=t2 and p=p and c=c] assms(4) by simp
  have d1: "committed d1 = upsert_row (make_row formatted_first city t1 p) (working c)"
       "working d1 = upsert_row (make_row formatted_first city t1 p) (working c)"
    using upsert_with_single[where refuses=refuses and a=formatted_first and city=city and now=t1 and p=p and c=c] assms(5) assms(1) assms(9)
    by (simp_all add: upsert_restaurants_def)
  have d2: "committed d2 = upsert_row (make_row formatted_first city t2 p) (working d1)"
    using upsert_with_single[where refuses=refuses and a=formatted_first and city=city and now=t2 and p=p and c=d1] assms(6) assms(1) assms(10)
    by (simp add: upsert_restaurants_def)
  have d3: "committed (fst (upsert_restaurants refuses t2 c city [p])) =
              upsert_row (make_row formatted_first city t2 p) (working c)"
    using upsert_with_single[where refuses=refuses and a=formatted_first and city=city and now=t2 and p=p and c=c] assms(6) assms(1) by (simp add: upsert_restaurants_def)
  have fa: "map_option col_fetched_at (Some (make_row a city t p)) = Some t" for a t
    by simp
  have fd: "map_option descriptive (Some (make_row a city t2 p)) =
            map_option descriptive (Some (make_row a city t1 p))" for a
    by (simp add: desc)
  note V = upsert_twice_table[OF assms(1), of vicinity_first city t2 t1 "working c"]
  have "length (committed c2) = length (committed c1)
       \<and> map descriptive (committed c2) = map descriptive (committed c1)
       \<and> committed c2 = committed (fst (insert_places refuses t2 c city [p]))
       \<and> map_option col_fetched_at (find_row city (place_id p) (committed c1)) = Some t1
       \<and> map_option col_fetched_at (find_row city (place_id p) (committed c2)) = Some t2
       \<and> map_option descriptive (find_row city (place_id p) (committed c2)) =
           map_option descriptive (find_row city (place_id p) (committed c1))"
    unfolding c1 c2 c3 using V fa[of vicinity_first] fd[of vicinity_first] by metis
  moreover
  note F = upsert_twice_table[OF assms(1), of formatted_first city t2 t1 "working c"]
  have "length (committed d2) = length (committed d1)
       \<and> map descriptive (committed d2) = map descriptive (committed d1)
       \<and> committed d2 = committed (fst (upsert_restaurants refuses t2 c city [p]))
       \<and> map_option col_fetched_at (find_row city (place_id p) (committed d1)) = Some t1
       \<and> map_option col_fetched_at (find_row city (place_id p) (committed d2)) = Some t2
       \<and> map_option descriptive (find_row city (place_id p) (committed d2)) =
           map_option descriptive (find_row city (place_id p) (committed d1))"
    unfolding d1 d2 d3 using F fa[of formatted_first] fd[of formatted_first] by metis
  ultimately show ?thesis by blast
qed

theorem upsert_twice_same_as_once_witness:
  "place_id (place_of_id (Some ''a'')) \<noteq> None \<and> (3::nat) \<le> 8
   \<and> committed (fst (insert_places (\<lambda>r. False) 3 empty_connection ''SF'' [place_of_id (Some ''a'')]))
       = [make_row vicinity_first ''SF'' 3 (place_of_id (Some ''a''))]
   \<and> committed (fst (insert_places (\<lambda>r. False) 8
         (fst (insert_places (\<lambda>r. False) 3 empty_connection ''SF'' [place_of_id (Some ''a'')]))
         ''SF'' [place_of_id (Some ''a'')]))
       = [make_row vicinity_first ''SF'' 8 (place_of_id (Some ''a''))]
   \<and> map_option col_fetched_at (find_row ''SF'' (Some ''a'')
         (committed (fst (insert_places (\<lambda>r. False) 8
           (fst (insert_places (\<lambda>r. False) 3 empty_connection ''SF'' [place_of_id (Some ''a'')]))
           ''SF'' [place_of_id (Some ''a'')])))) = Some 8
   \<and> length (committed (fst (upsert_restaurants (\<lambda>r. False) 8
         (fst (upsert_restaurants (\<lambda>r. False) 3 empty_connection ''SF'' [place_of_id (Some ''a'')]))
         ''SF'' [place_of_id (Some ''a'')]))) = 1"
  using upsert_twice_same_as_once
    [where p = "place_of_id (Some ''a'')" and ?t1.0 = 3 and ?t2.0 = 8 and refuses = "\<lambda>r. False"
       and city = "''SF''" and c = empty_connection, OF _ _ _ _ _ _ refl refl refl refl]
  by (simp add: store_eval find_row_def)

subsection \<open>Deduplication\<close>

lemma finite_batch_ids: "finite (batch_ids batch)"
  by (simp add: batch_ids_def)

lemma batch_ids_Nil [simp]: "batch_ids [] = {}"
  by (simp add: batch_ids_def)

lemma batch_ids_Cons:
  "batch_ids (p # rest) =
     (if truthy (place_id p) then insert (place_id p) (batch_ids rest) else batch_ids rest)"
  by (auto simp: batch_ids_def)

lemma batch_ids_append: "batch_ids (xs @ ys) = batch_ids xs \<union> batch_ids ys"
  by (auto simp: batch_ids_def)

lemma new_places_loop_acc:
  "new_places_loop S acc batch =
     (fst (new_places_loop S [] batch), acc @ snd (new_places_loop S [] batch))"
proof (induction batch arbitrary: S acc)
  case Nil
  then show ?case by simp
next
  case (Cons p rest)
  show ?case
  proof (cases "truthy (place_id p) \<and> place_id p \<notin> S")
    case True
    then show ?thesis
      using Cons.IH[of "insert (place_id p) S" "acc @ [p]"] Cons.IH[of "insert (place_id p) S" "[p]"]
      by (simp add: Let_def)
  next
    case False
    then show ?thesis using Cons.IH[of S acc] by (auto simp: Let_def)
  qed
qed

lemma new_places_loop_Cons:
  "new_places_loop S [] (p # rest) =
     (if truthy (place_id p) \<and> place_id p \<notin> S
      then (fst (new_places_loop (insert (place_id p) S) [] rest),
            p # snd (new_places_loop (insert (place_id p) S) [] rest))
      else new_places_loop S [] rest)"
  using new_places_loop_acc[of "insert (place_id p) S" "[p]" rest]
  by (simp add: Let_def)

lemma seen_after_loop: "fst (new_places_loop S [] batch) = S \<union> batch_ids batch"
  by (induction batch arbitrary: S) (auto simp: new_places_loop_Cons batch_ids_Cons simp del: new_places_loop.simps(2))

lemma new_ids_of_loop:
  "set (map place_id (snd (new_places_loop S [] batch))) = batch_ids batch - S"
  by (induction batch arbitrary: S) (auto simp: new_places_loop_Cons batch_ids_Cons simp del: new_places_loop.simps(2))

lemma new_ids_distinct: "distinct (map place_id (snd (new_places_loop S [] batch)))"
proof (induction batch arbitrary: S)
  case Nil
  then show ?case by simp
next
  case (Cons p rest)
  have "place_id p \<notin> set (map place_id (snd (new_places_loop (insert (place_id p) S) [] rest)))"
    unfolding new_ids_of_loop by simp
  with Cons.IH show ?case by (simp add: new_places_loop_Cons del: new_places_loop.simps(2))
qed

lemma new_count: "length (snd (new_places_loop S [] batch)) = card (batch_ids batch - S)"
proof -
  have "length (snd (new_places_loop S [] batch)) =
        length (map place_id (snd (new_places_loop S [] batch)))" by simp
  also have "\<dots> = card (set (map place_id (snd (new_places_loop S [] batch))))"
    using new_ids_distinct[of S batch] by (simp only: distinct_card)
  also have "\<dots> = card (batch_ids batch - S)" by (simp only: new_ids_of_loop)
  finally show ?thesis .
qed


lemma new_places_truthy:
  "p \<in> set (snd (new_places_loop S [] batch)) \<Longrightarrow> truthy (place_id p) \<and> place_id p \<notin> S"
  using new_ids_of_loop[of S batch] by (auto simp: batch_ids_def)

lemma new_places_loop_filter:
  "new_places_loop S acc (filter (\<lambda>p. truthy (place_id p)) batch) = new_places_loop S acc batch"
  by (induction batch arbitrary: S acc) (auto simp: Let_def)

lemma insert_places_Nil: "insert_places R now c city [] = (c, Inr 0)"
  by (simp add: insert_places_def)

lemma visit_point_fetch_raised:
  assumes "fetch_nearby e (st_world st) = (w, Inl err)"
  shows "visit_point e city st = (st\<lparr>st_world := w\<rparr>, Raised err)"
  using assms by (simp add: visit_point_def)

lemma visit_point_fetched:
  assumes "fetch_nearby e (st_world st) = (w, Inr found)"
  shows "st_seen (fst (visit_point e city st)) = st_seen st \<union> batch_ids found"
    and "st_conn (fst (visit_point e city st)) =
           fst (insert_places (refuses_row e) (clock e (calls w)) (st_conn st) city
                  (snd (new_places_loop (st_seen st) [] found)))"
    and "(\<forall>err. snd (visit_point e city st) \<noteq> Raised err) \<longrightarrow>
           st_detector (fst (visit_point e city st)) =
             fst (plateau_observe (st_detector st) (card (batch_ids found - st_seen st)))"
proof -
  obtain S' new where loop: "new_places_loop (st_seen st) [] found = (S', new)"
    by (cases "new_places_loop (st_seen st) [] found")
  have S': "S' = st_seen st \<union> batch_ids found"
    using seen_after_loop[of "st_seen st" found] loop by simp
  have n: "length new = card (batch_ids found - st_seen st)"
    using new_count[of "st_seen st" found] loop by simp
  obtain c r where ins: "insert_places (refuses_row e) (clock e (calls w)) (st_conn st) city new = (c, r)"
    by (cases "insert_places (refuses_row e) (clock e (calls w)) (st_conn st) city new")
  have ins': "(if new \<noteq> [] then insert_places (refuses_row e) (clock e (calls w)) (st_conn st) city new
               else (st_conn st, Inr 0)) = (c, r)"
    using ins by (cases "new = []") (simp_all add: insert_places_Nil)
  obtain d stop where obs: "plateau_observe (st_detector st) (length new) = (d, stop)"
    by (cases "plateau_observe (st_detector st) (length new)")
  have vp: "visit_point e city st =
      (case r of
         Inl err \<Rightarrow> (st\<lparr>st_seen := S', st_conn := c, st_world := w\<rparr>, Raised err)
       | Inr written \<Rightarrow>
           if stop then (\<lparr>st_seen = S', st_conn = c, st_detector = d, st_world = w\<rparr>, Broke)
           else (\<lparr>st_seen = S', st_conn = c, st_detector = d, st_world = sleep REQUEST_SLEEP w\<rparr>,
                 Proceed))"
  proof (cases "new = []")
    case True
    with ins have "c = st_conn st" "r = Inr 0" by (simp_all add: insert_places_Nil)
    moreover from True obs have "plateau_observe (st_detector st) 0 = (d, stop)" by simp
    ultimately show ?thesis using True by (simp add: visit_point_def assms loop)
  next
    case False
    then show ?thesis by (simp add: visit_point_def assms loop obs ins split: sum.splits)
  qed
  show "st_seen (fst (visit_point e city st)) = st_seen st \<union> batch_ids found"
    unfolding vp using S' by (cases r) simp_all
  show "st_conn (fst (visit_point e city st)) =
           fst (insert_places (refuses_row e) (clock e (calls w)) (st_conn st) city
                  (snd (new_places_loop (st_seen st) [] found)))"
    unfolding vp loop using ins by (cases r) simp_all
  show "(\<forall>err. snd (visit_point e city st) \<noteq> Raised err) \<longrightarrow>
           st_detector (fst (visit_point e city st)) =
             fst (plateau_observe (st_detector st) (card (batch_ids found - st_seen st)))"
    unfolding vp using obs n by (cases r) auto
qed








subsection \<open>Results without a place id\<close>

lemma loop_per_city_truthy_sub:
  "set (snd (new_places_loop_per_city S acc batch)) \<subseteq> set acc \<union> {p. truthy (place_id p)}"
proof (induction batch arbitrary: S acc)
  case Nil
  then show ?case by simp
next
  case (Cons a batch)
  from Cons.IH[of S acc] Cons.IH[of "insert (place_id a) S" "acc @ [a]"]
  show ?case by (auto simp: Let_def)
qed

lemma loop_per_city_truthy:
  "p \<in> set (snd (new_places_loop_per_city S [] batch)) \<Longrightarrow> truthy (place_id p)"
  using loop_per_city_truthy_sub[of S "[]" batch] by auto

lemma loop_per_city_seen_sub:
  "fst (new_places_loop_per_city S acc batch) \<subseteq> S \<union> {pid. truthy pid}"
proof (induction batch arbitrary: S acc)
  case Nil
  then show ?case by simp
next
  case (Cons a batch)
  from Cons.IH[of S acc] Cons.IH[of "insert (place_id a) S" "acc @ [a]"]
  show ?case by (auto simp: Let_def)
qed

lemma loop_per_city_seen:
  "pid \<in> fst (new_places_loop_per_city S acc batch) \<Longrightarrow> pid \<in> S \<or> truthy pid"
  using loop_per_city_seen_sub[of S acc batch] by auto

lemma loop_per_city_filter:
  "new_places_loop_per_city S acc (filter (\<lambda>p. truthy (place_id p)) batch) =
   new_places_loop_per_city S acc batch"
  by (induction batch arbitrary: S acc) (auto simp: Let_def)

lemma loop_seen_truthy:
  "pid \<in> fst (new_places_loop S [] batch) \<Longrightarrow> pid \<in> S \<or> truthy pid"
  by (auto simp: seen_after_loop batch_ids_def)

lemma rows_upsert_row:
  "x \<in> set (upsert_row r t) \<Longrightarrow> x \<in> set t \<or> col_place_id x = col_place_id r"
  by (induction t) (auto simp: conflicts_def split: if_splits)

lemma rows_executemany:
  "x \<in> set (fst (executemany R rows t)) \<Longrightarrow> x \<in> set t \<or> col_place_id x \<in> col_place_id ` set rows"
proof (induction rows arbitrary: t)
  case Nil
  then show ?case by simp
next
  case (Cons r rows)
  show ?case
  proof (cases "R r")
    case True
    with Cons.prems show ?thesis by simp
  next
    case False
    with Cons.prems have "x \<in> set (fst (executemany R rows (upsert_row r t)))" by simp
    from Cons.IH[OF this] rows_upsert_row[of x r t] show ?thesis by auto
  qed
qed

lemma rows_insert_places:
  assumes "\<forall>p \<in> set places. truthy (place_id p)"
    and "x \<in> set (committed (fst (insert_places R now c city places)))
         \<or> x \<in> set (working (fst (insert_places R now c city places)))"
  shows "x \<in> set (committed c) \<or> x \<in> set (working c) \<or> truthy (col_place_id x)"
proof (cases "places = []")
  case True
  with assms(2) show ?thesis by (auto simp: insert_places_def)
next
  case False
  obtain t r where ex: "executemany R (map (make_row vicinity_first city now) places) (working c) = (t, r)"
    by (cases "executemany R (map (make_row vicinity_first city now) places) (working c)")
  have t: "y \<in> set t \<Longrightarrow> y \<in> set (working c) \<or> truthy (col_place_id y)" for y
    using rows_executemany[of y R "map (make_row vicinity_first city now) places" "working c"] ex assms(1)
    by auto
  from assms(2) False ex have "x \<in> set (committed c) \<or> x \<in> set t"
    by (cases r) (auto simp: insert_places_def Let_def commit_def rollback_def)
  with t show ?thesis by auto
qed

lemma rows_upsert_with:
  assumes "\<forall>p \<in> set places. truthy (place_id p)"
    and "x \<in> set (committed (fst (upsert_with a R now c city places)))
         \<or> x \<in> set (working (fst (upsert_with a R now c city places)))"
  shows "x \<in> set (committed c) \<or> x \<in> set (working c) \<or> truthy (col_place_id x)"
proof -
  let ?R = "\<lambda>r. not_null_violation r \<or> R r"
  obtain t r where ex: "executemany ?R (map (make_row a city now) places) (working c) = (t, r)"
    by (cases "executemany ?R (map (make_row a city now) places) (working c)")
  have t: "y \<in> set t \<Longrightarrow> y \<in> set (working c) \<or> truthy (col_place_id y)" for y
    using rows_executemany[of y ?R "map (make_row a city now) places" "working c"] ex assms(1)
    by auto
  from assms(2) ex have "x \<in> set (committed c) \<or> x \<in> set t"
    by (cases r) (auto simp: upsert_with_def Let_def commit_def)
  with t show ?thesis by auto
qed

lemma rows_visit_point:
  assumes "x \<in> set (committed (st_conn (fst (visit_point e city st))))
           \<or> x \<in> set (working (st_conn (fst (visit_point e city st))))"
  shows "x \<in> set (committed (st_conn st)) \<or> x \<in> set (working (st_conn st))
         \<or> truthy (col_place_id x)"
proof -
  obtain w r where f: "fetch_nearby e (st_world st) = (w, r)"
    by (cases "fetch_nearby e (st_world st)")
  show ?thesis
  proof (cases r)
    case (Inl err)
    with f assms show ?thesis by (auto simp: visit_point_fetch_raised)
  next
    case (Inr found)
    have tr: "\<forall>p \<in> set (snd (new_places_loop (st_seen st) [] found)). truthy (place_id p)"
      using new_places_truthy by blast
    from visit_point_fetched(2)[of e st w found city] f Inr
    have "st_conn (fst (visit_point e city st)) =
           fst (insert_places (refuses_row e) (clock e (calls w)) (st_conn st) city
                  (snd (new_places_loop (st_seen st) [] found)))" by simp
    with assms rows_insert_places[OF tr, of x "refuses_row e" "clock e (calls w)" "st_conn st" city]
    show ?thesis by simp
  qed
qed

lemma seen_visit_point:
  assumes "pid \<in> st_seen (fst (visit_point e city st))"
  shows "pid \<in> st_seen st \<or> truthy pid"
proof -
  obtain w r where f: "fetch_nearby e (st_world st) = (w, r)"
    by (cases "fetch_nearby e (st_world st)")
  show ?thesis
  proof (cases r)
    case (Inl err)
    with f assms show ?thesis by (auto simp: visit_point_fetch_raised)
  next
    case (Inr found)
    with visit_point_fetched(1)[of e st w found city] f assms show ?thesis
      by (auto simp: batch_ids_def)
  qed
qed

lemma visit_point_per_city_cases:
  obtains (target) "card (pc_seen st) \<ge> TARGET_PER_CITY" "visit_point_per_city e city st = (st, Broke)"
  | (api_error) w where "\<not> card (pc_seen st) \<ge> TARGET_PER_CITY"
      "fetch_nearby_per_city e 3 (pc_world st) = (w, Inl RuntimeError)"
      "visit_point_per_city e city st = (st\<lparr>pc_world := sleep 2 w\<rparr>, Proceed)"
  | (raised) w err where "\<not> card (pc_seen st) \<ge> TARGET_PER_CITY"
      "fetch_nearby_per_city e 3 (pc_world st) = (w, Inl err)" "err \<noteq> RuntimeError"
      "visit_point_per_city e city st = (st\<lparr>pc_world := w\<rparr>, Raised err)"
  | (fetched) w found where "\<not> card (pc_seen st) \<ge> TARGET_PER_CITY"
      "fetch_nearby_per_city e 3 (pc_world st) = (w, Inr found)"
      "visit_point_per_city e city st =
         (case (if snd (new_places_loop_per_city (pc_seen st) [] found) \<noteq> []
                then upsert_places_per_city (refuses_row e) (clock e (calls w)) (pc_conn st) city
                       (snd (new_places_loop_per_city (pc_seen st) [] found))
                else (pc_conn st, None)) of
            (c, Some err) \<Rightarrow>
              (\<lparr>pc_seen = fst (new_places_loop_per_city (pc_seen st) [] found), pc_conn = c,
                pc_world = w\<rparr>, Raised err)
          | (c, None) \<Rightarrow>
              (\<lparr>pc_seen = fst (new_places_loop_per_city (pc_seen st) [] found), pc_conn = c,
                pc_world = sleep (1 / 5) w\<rparr>, Proceed))"
proof (cases "card (pc_seen st) \<ge> TARGET_PER_CITY")
  case True
  then show ?thesis using target by (simp add: visit_point_per_city_def)
next
  case False
  obtain w r where f: "fetch_nearby_per_city e 3 (pc_world st) = (w, r)"
    by (cases "fetch_nearby_per_city e 3 (pc_world st)")
  show ?thesis
  proof (cases r)
    case (Inl err)
    show ?thesis
    proof (cases "err = RuntimeError")
      case True
      with False f Inl show ?thesis using api_error[of w]
        by (simp add: visit_point_per_city_def)
    next
      case F: False
      with False f Inl show ?thesis using raised[of w err]
        by (cases err) (simp_all add: visit_point_per_city_def)
    qed
  next
    case (Inr found)
    obtain S' new where loop: "new_places_loop_per_city (pc_seen st) [] found = (S', new)"
      by (cases "new_places_loop_per_city (pc_seen st) [] found")
    have eq: "visit_point_per_city e city st =
         (case (if new \<noteq> []
                then upsert_places_per_city (refuses_row e) (clock e (calls w)) (pc_conn st) city new
                else (pc_conn st, None)) of
            (c, Some err) \<Rightarrow> (\<lparr>pc_seen = S', pc_conn = c, pc_world = w\<rparr>, Raised err)
          | (c, None) \<Rightarrow> (\<lparr>pc_seen = S', pc_conn = c, pc_world = sleep (1 / 5) w\<rparr>, Proceed))"
      using False f Inr loop by (simp add: visit_point_per_city_def)
    have "fst (new_places_loop_per_city (pc_seen st) [] found) = S'"
         "snd (new_places_loop_per_city (pc_seen st) [] found) = new"
      using loop by simp_all
    with eq False f Inr show ?thesis using fetched[of w found] by simp
  qed
qed

lemma rows_visit_point_per_city:
  assumes "x \<in> set (committed (pc_conn (fst (visit_point_per_city e city st))))
           \<or> x \<in> set (working (pc_conn (fst (visit_point_per_city e city st))))"
  shows "x \<in> set (committed (pc_conn st)) \<or> x \<in> set (working (pc_conn st))
         \<or> truthy (col_place_id x)"
proof (cases rule: visit_point_per_city_cases[of st e city])
  case target
  with assms show ?thesis by auto
next
  case (api_error w)
  with assms show ?thesis by auto
next
  case (raised w err)
  with assms show ?thesis by auto
next
  case (fetched w found)
  let ?new = "snd (new_places_loop_per_city (pc_seen st) [] found)"
  have tr: "\<forall>p \<in> set ?new. truthy (place_id p)" using loop_per_city_truthy by blast
  show ?thesis
  proof (cases "?new = []")
    case True
    with fetched(3) assms show ?thesis by auto
  next
    case False
    obtain c r where u: "upsert_places_per_city (refuses_row e) (clock e (calls w)) (pc_conn st) city ?new = (c, r)"
      by (cases "upsert_places_per_city (refuses_row e) (clock e (calls w)) (pc_conn st) city ?new")
    from fetched(3) False u have "pc_conn (fst (visit_point_per_city e city st)) = c"
      by (cases r) simp_all
    with assms have "x \<in> set (committed c) \<or> x \<in> set (working c)" by simp
    with rows_upsert_with[OF tr, of x vicinity_first "refuses_row e" "clock e (calls w)" "pc_conn st" city] u
    show ?thesis by (auto simp: upsert_places_per_city_def)
  qed
qed

lemma seen_visit_point_per_city:
  assumes "pid \<in> pc_seen (fst (visit_point_per_city e city st))"
  shows "pid \<in> pc_seen st \<or> truthy pid"
proof (cases rule: visit_point_per_city_cases[of st e city])
  case target
  with assms show ?thesis by auto
next
  case (api_error w)
  with assms show ?thesis by auto
next
  case (raised w err)
  with assms show ?thesis by auto
next
  case (fetched w found)
  with assms have "pid \<in> fst (new_places_loop_per_city (pc_seen st) [] found)"
    by (auto split: prod.splits option.splits if_splits)
  then show ?thesis by (rule loop_per_city_seen)
qed

text \<open>
  Claim C10. A provider result whose place_id is missing or empty is dropped by the crawl
  loop of both scripts: it is never among the new records, its id is never added to the
  seen-set, the loop gives the same result as on the batch without such results (so they
  do not count toward the yield fed to the plateau detector), and every row that a grid
  point adds to or changes in the store has a non-empty place_id.
\<close>

theorem id_less_results_are_dropped:
  "(\<forall>p \<in> set (snd (new_places_loop S [] batch)). truthy (place_id p))
   \<and> (\<forall>pid \<in> fst (new_places_loop S [] batch). pid \<in> S \<or> truthy pid)
   \<and> new_places_loop S acc (filter (\<lambda>p. truthy (place_id p)) batch) = new_places_loop S acc batch
   \<and> (\<forall>p \<in> set (snd (new_places_loop_per_city S [] batch)). truthy (place_id p))
   \<and> (\<forall>pid \<in> fst (new_places_loop_per_city S [] batch). pid \<in> S \<or> truthy pid)
   \<and> new_places_loop_per_city S acc (filter (\<lambda>p. truthy (place_id p)) batch) =
       new_places_loop_per_city S acc batch
   \<and> (\<forall>pid \<in> st_seen (fst (visit_point e city st)). pid \<in> st_seen st \<or> truthy pid)
   \<and> (\<forall>x \<in> set (committed (st_conn (fst (visit_point e city st))))
             \<union> set (working (st_conn (fst (visit_point e city st)))).
         x \<in> set (committed (st_conn st)) \<or> x \<in> set (working (st_conn st))
         \<or> truthy (col_place_id x))
   \<and> (fetch_nearby e (st_world st) = (w, Inr found)
        \<and> (\<forall>err. snd (visit_point e city st) \<noteq> Raised err) \<longrightarrow>
        st_detector (fst (visit_point e city st)) =
          fst (plateau_observe (st_detector st)
                 (length (snd (new_places_loop (st_seen st) []
                                 (filter (\<lambda>p. truthy (place_id p)) found))))))
   \<and> (\<forall>pid \<in> pc_seen (fst (visit_point_per_city e city pst)). pid \<in> pc_seen pst \<or> truthy pid)
   \<and> (\<forall>x \<in> set (committed (pc_conn (fst (visit_point_per_city e city pst))))
             \<union> set (working (pc_conn (fst (visit_point_per_city e city pst)))).
         x \<in> set (committed (pc_conn pst)) \<or> x \<in> set (working (pc_conn pst))
         \<or> truthy (col_place_id x))"
proof -
  have 1: "\<forall>p \<in> set (snd (new_places_loop S [] batch)). truthy (place_id p)"
    using new_places_truthy by blast
  have 2: "\<forall>pid \<in> fst (new_places_loop S [] batch). pid \<in> S \<or> truthy pid"
    using loop_seen_truthy by blast
  have 4: "\<forall>p \<in> set (snd (new_places_loop_per_city S [] batch)). truthy (place_id p)"
    using loop_per_city_truthy by blast
  have 5: "\<forall>pid \<in> fst (new_places_loop_per_city S [] batch). pid \<in> S \<or> truthy pid"
    using loop_per_city_seen by blast
  have 7: "\<forall>pid \<in> st_seen (fst (visit_point e city st)). pid \<in> st_seen st \<or> truthy pid"
    using seen_visit_point by blast
  have 8: "\<forall>x \<in> set (committed (st_conn (fst (visit_point e city st))))
             \<union> set (working (st_conn (fst (visit_point e city st)))).
         x \<in> set (committed (st_conn st)) \<or> x \<in> set (working (st_conn st))
         \<or> truthy (col_place_id x)"
    using rows_visit_point[of _ e city st] by blast
  have 9: "fetch_nearby e (st_world st) = (w, Inr found)
        \<and> (\<forall>err. snd (visit_point e city st) \<noteq> Raised err) \<longrightarrow>
        st_detector (fst (visit_point e city st)) =
          fst (plateau_observe (st_detector st)
                 (length (snd (new_places_loop (st_seen st) []
                                 (filter (\<lambda>p. truthy (place_id p)) found)))))"
    using visit_point_fetched(3)[of e st w found city] new_count[of "st_seen st" found]
    by (simp add: new_places_loop_filter)
  have 10: "\<forall>pid \<in> pc_seen (fst (visit_point_per_city e city pst)). pid \<in> pc_seen pst \<or> truthy pid"
    using seen_visit_point_per_city by blast
  have 11: "\<forall>x \<in> set (committed (pc_conn (fst (visit_point_per_city e city pst))))
             \<union> set (working (pc_conn (fst (visit_point_per_city e city pst)))).
         x \<in> set (committed (pc_conn pst)) \<or> x \<in> set (working (pc_conn pst))
         \<or> truthy (col_place_id x)"
    using rows_visit_point_per_city[of _ e city pst] by blast
  from 1 2 4 5 7 8 9 10 11 new_places_loop_filter[of S acc batch] loop_per_city_filter[of S acc batch]
  show ?thesis by blast
qed

lemma example_fetch_id_less:
  "fetch_nearby (env_of (\<lambda>k. respond ''OK'' [place_of_id None, place_of_id (Some '''')])) world_init =
   (\<lparr>calls = 1, draws = 0, slept = []\<rparr>, Inr [place_of_id None, place_of_id (Some '''')])"
  by code_simp

lemma example_visit_id_less:
  "visit_point (env_of (\<lambda>k. respond ''OK'' [place_of_id None, place_of_id (Some '''')])) ''SF''
     \<lparr>st_seen = {}, st_conn = empty_connection, st_detector = detector_init, st_world = world_init\<rparr> =
   (\<lparr>st_seen = {}, st_conn = empty_connection,
     st_detector = \<lparr>recent = [0], stable_hits = 0, points_done = 1\<rparr>,
     st_world = \<lparr>calls = 1, draws = 0, slept = [4 / 5]\<rparr>\<rparr>, Proceed)"
  by code_simp

theorem id_less_results_are_dropped_witness:
  "new_places_loop {} [] [place_of_id None, place_of_id (Some ''''), place_of_id (Some ''a'')] =
     ({Some ''a''}, [place_of_id (Some ''a'')])
   \<and> new_places_loop_per_city {} []
       [place_of_id None, place_of_id (Some ''''), place_of_id (Some ''a'')] =
     ({Some ''a''}, [place_of_id (Some ''a'')])
   \<and> fetch_nearby (env_of (\<lambda>k. respond ''OK'' [place_of_id None, place_of_id (Some '''')]))
       world_init =
     (\<lparr>calls = 1, draws = 0, slept = []\<rparr>, Inr [place_of_id None, place_of_id (Some '''')])
   \<and> visit_point (env_of (\<lambda>k. respond ''OK'' [place_of_id None, place_of_id (Some '''')])) ''SF''
       \<lparr>st_seen = {}, st_conn = empty_connection, st_detector = detector_init,
        st_world = world_init\<rparr> =
     (\<lparr>st_seen = {}, st_conn = empty_connection,
       st_detector = fst (plateau_observe detector_init 0),
       st_world = \<lparr>calls = 1, draws = 0, slept = [4 / 5]\<rparr>\<rparr>, Proceed)"
proof -
  let ?b = "[place_of_id None, place_of_id (Some ''''), place_of_id (Some ''a'')]"
  let ?e = "env_of (\<lambda>k. respond ''OK'' [place_of_id None, place_of_id (Some '''')])"
  let ?st = "\<lparr>st_seen = {}, st_conn = empty_connection, st_detector = detector_init,
        st_world = world_init\<rparr>"
  note T = id_less_results_are_dropped
    [of "{}" ?b "[]" ?e "''SF''" ?st "\<lparr>calls = 1, draws = 0, slept = []\<rparr>"
        "[place_of_id None, place_of_id (Some '''')]"]
  have a: "new_places_loop {} [] ?b = ({Some ''a''}, [place_of_id (Some ''a'')])"
    by (simp add: Let_def place_of_id_def)
  have b: "new_places_loop_per_city {} [] ?b = ({Some ''a''}, [place_of_id (Some ''a'')])"
    by (simp add: Let_def place_of_id_def TARGET_PER_CITY_def)
  have d: "fst (plateau_observe detector_init 0) = \<lparr>recent = [0], stable_hits = 0, points_done = 1\<rparr>"
    by code_simp
  from T a b example_fetch_id_less example_visit_id_less d show ?thesis
    by (simp del: new_places_loop.simps new_places_loop_per_city.simps)
qed

subsection \<open>Network failures\<close>









lemma later_success_example:
  "main (env_of (\<lambda>k. if k < 3 then ReadTimeout else respond ''ZERO_RESULTS'' []))
     (Some ''key'') empty_connection [(''SF'', [(0, 0), (1, 1)])] =
   ((empty_connection,
     \<lparr>calls = 5, draws = 3, slept = [1, 2, 4, 4 / 5, 4 / 5]\<rparr>), None)"
  by code_simp


subsection \<open>Fatal provider statuses\<close>














end
